theory Spec2Isabelle
  imports Complex_Main "HOL-Library.AList" "HOL-Library.Char_ord" "HOL-Library.List_Lexorder"
    "HOL-Library.Word"
begin

unbundle bit_operations_syntax


section \<open>Core data structures (mapreduce.py)\<close>

text \<open>
  The enums \<open>TaskType\<close> and \<open>TaskStatus\<close>, with the string each member carries
  (\<open>TaskType.MAP = "map"\<close> and so on).  \<open>TaskType_of_value\<close> is the enum's
  constructor call \<open>TaskType(s)\<close>, which raises \<open>ValueError\<close> for a string that
  is no member's value.
\<close>

datatype TaskType = MAP | REDUCE | WAIT | EXIT

datatype TaskStatus = IDLE | IN_PROGRESS | COMPLETED

fun TaskType_value :: "TaskType \<Rightarrow> string" where
  "TaskType_value MAP = ''map''"
| "TaskType_value REDUCE = ''reduce''"
| "TaskType_value WAIT = ''wait''"
| "TaskType_value EXIT = ''exit''"

definition TaskType_of_value :: "string \<Rightarrow> TaskType option" where
  "TaskType_of_value s =
     (if s = ''map'' then Some MAP
      else if s = ''reduce'' then Some REDUCE
      else if s = ''wait'' then Some WAIT
      else if s = ''exit'' then Some EXIT
      else None)"

text \<open>
  Exceptions are values.  \<open>error_str\<close> is Python's \<open>str(e)\<close> as far as the
  model needs it: the message an exception was raised with.
\<close>

datatype error =
    KeyError string
  | ValueError string
  | TypeError string
  | IndexError string
  | ZeroDivisionError string
  | FileNotFoundError string
  | OSError string
  | UserError string


record KeyValue =
  key :: string
  "value" :: string

record Task =
  task_id :: int
  task_type :: TaskType
  input_files :: "string list"
  output_file :: string
  n_reduce :: int
  map_task_id :: int
  reduce_task_id :: int

text \<open>
  The values a task's dictionary holds on the wire, and the dictionary itself: a
  finite map from field names to values.
\<close>

datatype jvalue = JInt int | JStr string | JStrList "string list" | JBool bool

type_synonym pydict = "string \<rightharpoonup> jvalue"

definition to_dict :: "Task \<Rightarrow> pydict" where
  "to_dict t =
     [''task_id'' \<mapsto> JInt (task_id t),
      ''task_type'' \<mapsto> JStr (TaskType_value (task_type t)),
      ''input_files'' \<mapsto> JStrList (input_files t),
      ''output_file'' \<mapsto> JStr (output_file t),
      ''n_reduce'' \<mapsto> JInt (n_reduce t),
      ''map_task_id'' \<mapsto> JInt (map_task_id t),
      ''reduce_task_id'' \<mapsto> JInt (reduce_task_id t)]"

text \<open>
  \<open>data[k]\<close> raises \<open>KeyError\<close> on a missing key; \<open>data.get(k, d)\<close> does not.
  The record \<open>Task\<close> is typed, so a dictionary holding a value of another type
  under a field's name (which Python would store in the object unchecked) is
  answered with \<open>TypeError\<close> here.
\<close>

definition dict_item :: "pydict \<Rightarrow> string \<Rightarrow> error + jvalue" where
  "dict_item d k = (case d k of None \<Rightarrow> Inl (KeyError k) | Some v \<Rightarrow> Inr v)"

definition dict_get :: "pydict \<Rightarrow> string \<Rightarrow> jvalue \<Rightarrow> jvalue" where
  "dict_get d k dflt = (case d k of None \<Rightarrow> dflt | Some v \<Rightarrow> v)"

definition bind_err :: "error + 'a \<Rightarrow> ('a \<Rightarrow> error + 'b) \<Rightarrow> error + 'b" where
  "bind_err r f = (case r of Inl e \<Rightarrow> Inl e | Inr v \<Rightarrow> f v)"

fun jint :: "jvalue \<Rightarrow> error + int" where
  "jint (JInt i) = Inr i"
| "jint _ = Inl (TypeError ''int'')"

fun jstr :: "jvalue \<Rightarrow> error + string" where
  "jstr (JStr s) = Inr s"
| "jstr _ = Inl (TypeError ''str'')"

fun jstrlist :: "jvalue \<Rightarrow> error + string list" where
  "jstrlist (JStrList l) = Inr l"
| "jstrlist _ = Inl (TypeError ''list'')"

fun jkind :: "jvalue \<Rightarrow> error + TaskType" where
  "jkind (JStr s) = (case TaskType_of_value s of None \<Rightarrow> Inl (ValueError s) | Some k \<Rightarrow> Inr k)"
| "jkind _ = Inl (ValueError ''task_type'')"

definition from_dict :: "pydict \<Rightarrow> error + Task" where
  "from_dict d =
     bind_err (bind_err (dict_item d ''task_id'') jint) (\<lambda>i.
     bind_err (bind_err (dict_item d ''task_type'') jkind) (\<lambda>kind.
     bind_err (bind_err (dict_item d ''input_files'') jstrlist) (\<lambda>fs.
     bind_err (bind_err (dict_item d ''output_file'') jstr) (\<lambda>out.
     bind_err (bind_err (dict_item d ''n_reduce'') jint) (\<lambda>n.
     bind_err (jint (dict_get d ''map_task_id'' (JInt (- 1)))) (\<lambda>m.
     bind_err (jint (dict_get d ''reduce_task_id'' (JInt (- 1)))) (\<lambda>r.
       Inr \<lparr>task_id = i, task_type = kind, input_files = fs, output_file = out,
            n_reduce = n, map_task_id = m, reduce_task_id = r\<rparr>)))))))"

subsection \<open>Partitioning hash and file names\<close>

text \<open>
  \<open>ihash\<close> calls Python's built-in \<open>hash\<close> on the key.  The built-in is part of
  the interpreter, not of the repository, and for \<open>str\<close> it is keyed by a seed the
  interpreter draws at start-up; the model takes it as the parameter \<open>py_hash\<close>, one
  function per interpreter process.  \<open>%\<close> is Python's floor modulus, which is
  \<open>mod\<close> on \<open>int\<close>.
\<close>

definition ihash :: "(string \<Rightarrow> int) \<Rightarrow> string \<Rightarrow> int" where
  "ihash py_hash k = py_hash k mod (2 ^ 31 - 1)"

text \<open>Decimal printing of an integer, as an f-string does it.\<close>

definition digit_char :: "nat \<Rightarrow> char" where
  "digit_char d = ''0123456789'' ! d"

fun str_nat :: "nat \<Rightarrow> string" where
  "str_nat n = (if n < 10 then [digit_char n] else str_nat (n div 10) @ [digit_char (n mod 10)])"

definition str_int :: "int \<Rightarrow> string" where
  "str_int i = (if i < 0 then CHR ''-'' # str_nat (nat (- i)) else str_nat (nat i))"

definition intermediate_filename :: "int \<Rightarrow> int \<Rightarrow> string" where
  "intermediate_filename m r = ''mr-'' @ str_int m @ ''-'' @ str_int r"

definition output_filename :: "int \<Rightarrow> string" where
  "output_filename r = ''mr-out-'' @ str_int r"

subsection \<open>Sorting and grouping\<close>

text \<open>
  \<open>sorted(key_values, key=lambda kv: kv.key)\<close>: Python's \<open>sorted\<close> is a stable
  sort, and \<open>str\<close> is compared lexicographically, character by character, a proper
  prefix first.  \<open>sort_key\<close> is the library's stable insertion sort and the order on
  \<open>string\<close> is the lexicographic one.
\<close>

definition sort_key_values :: "KeyValue list \<Rightarrow> KeyValue list" where
  "sort_key_values key_values = sort_key key key_values"

text \<open>
  The loop of \<open>group_by_key\<close>, with its three variables \<open>groups\<close>,
  \<open>current_key\<close> and \<open>current_values\<close>; at the end of the input the last group is
  appended.
\<close>

fun group_loop ::
  "KeyValue list \<Rightarrow> (string \<times> string list) list \<Rightarrow> string \<Rightarrow> string list
     \<Rightarrow> (string \<times> string list) list" where
  "group_loop [] groups current_key current_values = groups @ [(current_key, current_values)]"
| "group_loop (kv # rest) groups current_key current_values =
     (if key kv = current_key
      then group_loop rest groups current_key (current_values @ [value kv])
      else group_loop rest (groups @ [(current_key, current_values)]) (key kv) [value kv])"

definition group_by_key :: "KeyValue list \<Rightarrow> (string \<times> string list) list" where
  "group_by_key sorted_key_values =
     (case sorted_key_values of
        [] \<Rightarrow> []
      | kv # rest \<Rightarrow> group_loop rest [] (key kv) [value kv])"

section \<open>The coordinator (coordinator.py)\<close>

text \<open>
  \<open>TaskInfo\<close> is the coordinator's record of one task.  Times are readings of
  \<open>time.time()\<close>; the model takes them as real numbers handed to each operation.
\<close>

record TaskInfo =
  task :: Task
  status :: TaskStatus
  worker_id :: "string option"
  start_time :: "real option"
  completion_time :: "real option"

definition TaskInfo_new :: "Task \<Rightarrow> TaskInfo" where
  "TaskInfo_new t =
     \<lparr>task = t, status = IDLE, worker_id = None, start_time = None, completion_time = None\<rparr>"

text \<open>
  A Python dictionary keeps its keys in insertion order and \<open>values()\<close> iterates in
  that order, which decides the task \<open>_get_available_task\<close> finds first.  The two
  task tables are therefore association lists: \<open>map_of\<close> is the lookup,
  \<open>AList.update\<close> is \<open>d[k] = v\<close> (in place for a key that is there, at the end
  for a new one), and \<open>AList.map_entry\<close> is the mutation of the object stored under a
  key.  The coordinator's field \<open>n_reduce\<close> is \<open>c_n_reduce\<close> here, the name
  \<open>n_reduce\<close> being the task's field.
\<close>

type_synonym task_table = "(int \<times> TaskInfo) list"

record Coordinator =
  files :: "string list"
  c_n_reduce :: int
  map_tasks :: task_table
  reduce_tasks :: task_table
  next_task_id :: int
  active_workers :: "string set"
  map_phase_complete :: bool
  all_tasks_complete :: bool

fun create_map_tasks_loop :: "(nat \<times> string) list \<Rightarrow> Coordinator \<Rightarrow> Coordinator" where
  "create_map_tasks_loop [] c = c"
| "create_map_tasks_loop ((i, filename) # rest) c =
     create_map_tasks_loop rest
       (c\<lparr>map_tasks :=
            AList.update (next_task_id c)
              (TaskInfo_new
                 \<lparr>task_id = next_task_id c, task_type = MAP, input_files = [filename],
                  output_file = [], n_reduce = c_n_reduce c, map_task_id = int i,
                  reduce_task_id = - 1\<rparr>)
              (map_tasks c),
          next_task_id := next_task_id c + 1\<rparr>)"

definition create_map_tasks :: "Coordinator \<Rightarrow> Coordinator" where
  "create_map_tasks c = create_map_tasks_loop (enumerate 0 (files c)) c"

fun create_reduce_tasks_loop :: "nat list \<Rightarrow> Coordinator \<Rightarrow> Coordinator" where
  "create_reduce_tasks_loop [] c = c"
| "create_reduce_tasks_loop (i # rest) c =
     create_reduce_tasks_loop rest
       (c\<lparr>reduce_tasks :=
            AList.update (next_task_id c)
              (TaskInfo_new
                 \<lparr>task_id = next_task_id c, task_type = REDUCE,
                  input_files =
                    map (\<lambda>map_id. ''mr-'' @ str_int (int map_id) @ ''-'' @ str_int (int i))
                      [0 ..< length (files c)],
                  output_file = ''mr-out-'' @ str_int (int i), n_reduce = c_n_reduce c,
                  map_task_id = - 1, reduce_task_id = int i\<rparr>)
              (reduce_tasks c),
          next_task_id := next_task_id c + 1\<rparr>)"

definition create_reduce_tasks :: "Coordinator \<Rightarrow> Coordinator" where
  "create_reduce_tasks c = create_reduce_tasks_loop [0 ..< nat (c_n_reduce c)] c"

definition Coordinator_init :: "string list \<Rightarrow> int \<Rightarrow> Coordinator" where
  "Coordinator_init fs n =
     create_reduce_tasks (create_map_tasks
       \<lparr>files = fs, c_n_reduce = n, map_tasks = [], reduce_tasks = [], next_task_id = 0,
        active_workers = {}, map_phase_complete = False, all_tasks_complete = False\<rparr>)"

definition done_coordinator :: "Coordinator \<Rightarrow> bool" where
  "done_coordinator c = all_tasks_complete c"

text \<open>The first task of a table, in iteration order, whose status is \<open>IDLE\<close>.\<close>

definition first_idle :: "task_table \<Rightarrow> Task option" where
  "first_idle tbl = map_option (\<lambda>p. task (snd p)) (List.find (\<lambda>p. status (snd p) = IDLE) tbl)"

definition get_available_task :: "Coordinator \<Rightarrow> Task option" where
  "get_available_task c =
     (if \<not> map_phase_complete c then first_idle (map_tasks c)
      else first_idle (reduce_tasks c))"

definition all_completed :: "task_table \<Rightarrow> bool" where
  "all_completed tbl = list_all (\<lambda>p. status (snd p) = COMPLETED) tbl"

definition check_phase_completion :: "Coordinator \<Rightarrow> Coordinator" where
  "check_phase_completion c =
     (let c1 = (if \<not> map_phase_complete c \<and> all_completed (map_tasks c)
                then c\<lparr>map_phase_complete := True\<rparr> else c)
      in if map_phase_complete c1 \<and> all_completed (reduce_tasks c1)
         then c1\<lparr>all_tasks_complete := True\<rparr> else c1)"

text \<open>
  \<open>_handle_task_request\<close>.  The handler looks the found task up again by its
  \<open>task_id\<close>, in the table its \<open>task_type\<close> names, and \<open>d[k]\<close> raises
  \<open>KeyError\<close> when the key is missing; the worker has been added to
  \<open>active_workers\<close> by then.  The result is the reply (the task's dictionary, or
  the exception the RPC layer reports) and the coordinator afterwards.
\<close>

definition control_task :: "TaskType \<Rightarrow> int \<Rightarrow> Task" where
  "control_task kind n =
     \<lparr>task_id = - 1, task_type = kind, input_files = [], output_file = [], n_reduce = n,
      map_task_id = - 1, reduce_task_id = - 1\<rparr>"

definition assign :: "string \<Rightarrow> real \<Rightarrow> TaskInfo \<Rightarrow> TaskInfo" where
  "assign w now ti = ti\<lparr>status := IN_PROGRESS, worker_id := Some w, start_time := Some now\<rparr>"

definition handle_task_request ::
  "string \<Rightarrow> real \<Rightarrow> Coordinator \<Rightarrow> (error + pydict) \<times> Coordinator" where
  "handle_task_request w now c =
     (let c1 = c\<lparr>active_workers := insert w (active_workers c)\<rparr> in
      case get_available_task c1 of
        None \<Rightarrow>
          if all_tasks_complete c1 then (Inr (to_dict (control_task EXIT (c_n_reduce c1))), c1)
          else (Inr (to_dict (control_task WAIT (c_n_reduce c1))), c1)
      | Some t \<Rightarrow>
          if task_type t = MAP then
            (case map_of (map_tasks c1) (task_id t) of
               None \<Rightarrow> (Inl (KeyError (str_int (task_id t))), c1)
             | Some _ \<Rightarrow>
                 (Inr (to_dict t),
                  c1\<lparr>map_tasks := AList.map_entry (task_id t) (assign w now) (map_tasks c1)\<rparr>))
          else
            (case map_of (reduce_tasks c1) (task_id t) of
               None \<Rightarrow> (Inl (KeyError (str_int (task_id t))), c1)
             | Some _ \<Rightarrow>
                 (Inr (to_dict t),
                  c1\<lparr>reduce_tasks :=
                       AList.map_entry (task_id t) (assign w now) (reduce_tasks c1)\<rparr>)))"

text \<open>
  \<open>_handle_task_completion\<close>.  The task is looked for in \<open>map_tasks\<close> first and
  in \<open>reduce_tasks\<close> second; \<open>complete\<close> and \<open>reset\<close> are the two assignments to
  the fields of the task's \<open>TaskInfo\<close>.
\<close>

definition complete :: "real \<Rightarrow> TaskInfo \<Rightarrow> TaskInfo" where
  "complete now ti = ti\<lparr>status := COMPLETED, completion_time := Some now\<rparr>"

definition reset :: "TaskInfo \<Rightarrow> TaskInfo" where
  "reset ti = ti\<lparr>status := IDLE, worker_id := None, start_time := None\<rparr>"

definition handle_task_completion ::
  "string \<Rightarrow> int \<Rightarrow> bool \<Rightarrow> string \<Rightarrow> real \<Rightarrow> Coordinator \<Rightarrow> pydict \<times> Coordinator" where
  "handle_task_completion w tid success error_message now c =
     (case map_of (map_tasks c) tid of
        Some _ \<Rightarrow>
          if success
          then ([''acknowledged'' \<mapsto> JBool True],
                check_phase_completion
                  (c\<lparr>map_tasks := AList.map_entry tid (complete now) (map_tasks c)\<rparr>))
          else ([''acknowledged'' \<mapsto> JBool True],
                c\<lparr>map_tasks := AList.map_entry tid reset (map_tasks c)\<rparr>)
      | None \<Rightarrow>
          (case map_of (reduce_tasks c) tid of
             Some _ \<Rightarrow>
               if success
               then ([''acknowledged'' \<mapsto> JBool True],
                     check_phase_completion
                       (c\<lparr>reduce_tasks :=
                            AList.map_entry tid (complete now) (reduce_tasks c)\<rparr>))
               else ([''acknowledged'' \<mapsto> JBool True],
                     c\<lparr>reduce_tasks := AList.map_entry tid reset (reduce_tasks c)\<rparr>)
           | None \<Rightarrow>
               ([''acknowledged'' \<mapsto> JBool False, ''error'' \<mapsto> JStr ''Task not found''], c)))"

text \<open>
  One pass of the loop of \<open>_monitor_tasks\<close> under the lock, at clock reading
  \<open>current_time\<close>: nothing once \<open>all_tasks_complete\<close> holds (the loop leaves),
  otherwise every task of the active phase that has been \<open>IN_PROGRESS\<close> for more
  than 10 seconds is reset.
\<close>

definition timed_out :: "real \<Rightarrow> TaskInfo \<Rightarrow> bool" where
  "timed_out current_time ti =
     (status ti = IN_PROGRESS \<and>
      (case start_time ti of None \<Rightarrow> False | Some st \<Rightarrow> current_time - st > 10))"

definition expire :: "real \<Rightarrow> task_table \<Rightarrow> task_table" where
  "expire current_time tbl =
     map (\<lambda>p. (fst p, if timed_out current_time (snd p) then reset (snd p) else snd p)) tbl"

definition monitor_tasks_pass :: "real \<Rightarrow> Coordinator \<Rightarrow> Coordinator" where
  "monitor_tasks_pass current_time c =
     (if all_tasks_complete c then c
      else if \<not> map_phase_complete c
           then c\<lparr>map_tasks := expire current_time (map_tasks c)\<rparr>
           else c\<lparr>reduce_tasks := expire current_time (reduce_tasks c)\<rparr>)"

text \<open>
  The coordinator's operations all run under one lock, so a run of the coordinator
  is a sequence of them, each with the clock reading it takes.
\<close>

datatype operation =
    RequestTask string real
  | CompleteTask string int bool string real
  | MonitorPass real

fun step :: "operation \<Rightarrow> Coordinator \<Rightarrow> Coordinator" where
  "step (RequestTask w now) c = snd (handle_task_request w now c)"
| "step (CompleteTask w tid success msg now) c =
     snd (handle_task_completion w tid success msg now c)"
| "step (MonitorPass now) c = monitor_tasks_pass now c"

fun run :: "operation list \<Rightarrow> Coordinator \<Rightarrow> Coordinator" where
  "run [] c = c"
| "run (x # xs) c = run xs (step x c)"

text \<open>The \<open>TaskInfo\<close> a task id names: \<open>map_tasks\<close> is searched first.\<close>

definition task_info :: "Coordinator \<Rightarrow> int \<Rightarrow> TaskInfo option" where
  "task_info c tid =
     (case map_of (map_tasks c) tid of
        Some ti \<Rightarrow> Some ti
      | None \<Rightarrow> map_of (reduce_tasks c) tid)"

section \<open>The worker (worker.py) and the files it reads and writes\<close>

text \<open>
  What the worker takes from outside the repository.  \<open>runtime\<close> collects the
  interpreter's functions: the built-in string hash of the process, \<open>json.dump\<close> of
  a pair's dictionary, \<open>json.loads\<close> followed by \<open>KeyValue.from_dict\<close> (\<open>None\<close>
  when either raises), and \<open>str.strip\<close>.  \<open>MapReduceApp\<close> is the plugin: its two
  callbacks return a value or raise.
\<close>

record runtime =
  py_hash :: "string \<Rightarrow> int"
  json_dumps :: "KeyValue \<Rightarrow> string"
  json_loads :: "string \<Rightarrow> KeyValue option"
  str_strip :: "string \<Rightarrow> string"

record MapReduceApp =
  map_func :: "string \<Rightarrow> string \<Rightarrow> error + KeyValue list"
  reduce_func :: "string \<Rightarrow> string list \<Rightarrow> error + string"

text \<open>
  The shared directory.  \<open>fs_files\<close> maps a path that exists to the text of the
  file there, that is, to its bytes decoded (the map input is decoded as UTF-8 with
  \<open>errors="ignore"\<close>); a \<open>string\<close> holds characters of code points below 256.
  \<open>fs_unreadable\<close> holds the
  paths that cannot be opened for reading although they exist (a directory, a file
  without read permission), and \<open>fs_readonly\<close> the paths that cannot be opened
  for writing or renamed onto; these refusals of the operating system reach the
  code as \<open>OSError\<close>.  \<open>fs_log\<close> records, in order, every write and rename
  that took place.  \<open>open_read\<close> is \<open>open(path, "r")\<close> and the read: in text
  mode a carriage return with a line feed after it, and a carriage return alone,
  reach the program as one line feed (\<open>universal_newlines\<close>).  \<open>open_write\<close> is \<open>open(path, "w")\<close>, the writes and the close, and
  \<open>os_rename\<close> is \<open>os.rename\<close>, one step that replaces the target.
\<close>

datatype fs_event = Write string string | Rename string string

record filesystem =
  fs_files :: "string \<rightharpoonup> string"
  fs_unreadable :: "string set"
  fs_readonly :: "string set"
  fs_log :: "fs_event list"

definition newline :: string where
  "newline = [CHR 0x0A]"

definition path_exists :: "filesystem \<Rightarrow> string \<Rightarrow> bool" where
  "path_exists fs path = (fs_files fs path \<noteq> None)"

fun universal_newlines :: "string \<Rightarrow> string" where
  "universal_newlines [] = []"
| "universal_newlines [c] = (if c = CHR 0x0D then [CHR 0x0A] else [c])"
| "universal_newlines (c # d # cs) =
     (if c = CHR 0x0D \<and> d = CHR 0x0A then CHR 0x0A # universal_newlines cs
      else if c = CHR 0x0D then CHR 0x0A # universal_newlines (d # cs)
      else c # universal_newlines (d # cs))"

definition open_read :: "filesystem \<Rightarrow> string \<Rightarrow> error + string" where
  "open_read fs path =
     (case fs_files fs path of
        None \<Rightarrow> Inl (FileNotFoundError path)
      | Some text \<Rightarrow>
          if path \<in> fs_unreadable fs then Inl (OSError path)
          else Inr (universal_newlines text))"

definition open_write :: "string \<Rightarrow> string \<Rightarrow> filesystem \<Rightarrow> error + filesystem" where
  "open_write path text fs =
     (if path \<in> fs_readonly fs then Inl (OSError path)
      else Inr (fs\<lparr>fs_files := (fs_files fs)(path \<mapsto> text),
                   fs_log := fs_log fs @ [Write path text]\<rparr>))"

definition os_rename :: "string \<Rightarrow> string \<Rightarrow> filesystem \<Rightarrow> error + filesystem" where
  "os_rename src dst fs =
     (case fs_files fs src of
        None \<Rightarrow> Inl (FileNotFoundError src)
      | Some text \<Rightarrow>
          if dst \<in> fs_readonly fs then Inl (OSError dst)
          else Inr (fs\<lparr>fs_files := ((fs_files fs)(src := None))(dst \<mapsto> text),
                       fs_log := fs_log fs @ [Rename src dst]\<rparr>))"

subsection \<open>Reading and writing key/value files (mapreduce.py)\<close>

definition kv_lines :: "runtime \<Rightarrow> KeyValue list \<Rightarrow> string" where
  "kv_lines rt key_values = concat (map (\<lambda>kv. json_dumps rt kv @ newline) key_values)"

definition write_key_values_to_file ::
  "runtime \<Rightarrow> string \<Rightarrow> KeyValue list \<Rightarrow> filesystem \<Rightarrow> error + filesystem" where
  "write_key_values_to_file rt filename key_values fs =
     open_write filename (kv_lines rt key_values) fs"

text \<open>The lines of the text read, each with its line feed, as iterating over the file gives them.\<close>

fun file_lines :: "string \<Rightarrow> string \<Rightarrow> string list" where
  "file_lines [] cur = (if cur = [] then [] else [cur])"
| "file_lines (c # cs) cur =
     (if c = CHR 0x0A then (cur @ [c]) # file_lines cs [] else file_lines cs (cur @ [c]))"

fun read_lines :: "runtime \<Rightarrow> string list \<Rightarrow> KeyValue list option" where
  "read_lines rt [] = Some []"
| "read_lines rt (l # ls) =
     (if str_strip rt l = [] then read_lines rt ls
      else (case json_loads rt (str_strip rt l) of
              None \<Rightarrow> None
            | Some kv \<Rightarrow> map_option (\<lambda>kvs. kv # kvs) (read_lines rt ls)))"

text \<open>
  \<open>read_key_values_from_file\<close> catches every exception: a missing file, a file
  that cannot be opened and a line that does not parse all give the empty list.
\<close>

definition read_key_values_from_file :: "runtime \<Rightarrow> filesystem \<Rightarrow> string \<Rightarrow> KeyValue list" where
  "read_key_values_from_file rt fs filename =
     (case open_read fs filename of
        Inl e \<Rightarrow> []
      | Inr text \<Rightarrow> (case read_lines rt (file_lines text []) of None \<Rightarrow> [] | Some kvs \<Rightarrow> kvs))"

subsection \<open>Map tasks\<close>

text \<open>
  Subscripting a list: \<open>py_position\<close> is the place an index names in a list of a
  given length, counted from the end when the index is negative, and \<open>None\<close> when
  the index names no place, where the subscript raises \<open>IndexError\<close>.
  \<open>py_append_at\<close> is \<open>xss[i].append(x)\<close>, and \<open>py_range n\<close> is \<open>range(n)\<close>.
\<close>

definition py_position :: "nat \<Rightarrow> int \<Rightarrow> nat option" where
  "py_position len i =
     (if 0 \<le> i \<and> i < int len then Some (nat i)
      else if i < 0 \<and> - int len \<le> i then Some (nat (int len + i))
      else None)"

definition py_index :: "'a list \<Rightarrow> int \<Rightarrow> error + 'a" where
  "py_index xs i =
     (case py_position (length xs) i of
        None \<Rightarrow> Inl (IndexError ''list index out of range'')
      | Some p \<Rightarrow> Inr (xs ! p))"

definition py_append_at :: "'a list list \<Rightarrow> int \<Rightarrow> 'a \<Rightarrow> error + 'a list list" where
  "py_append_at xss i x =
     (case py_position (length xss) i of
        None \<Rightarrow> Inl (IndexError ''list index out of range'')
      | Some p \<Rightarrow> Inr (xss[p := xss ! p @ [x]]))"

definition py_range :: "int \<Rightarrow> int list" where
  "py_range n = map int [0 ..< nat n]"

text \<open>
  The partitioning loop of \<open>_execute_map_task\<close>: \<open>%\<close> by zero raises
  \<open>ZeroDivisionError\<close>.
\<close>

fun partition_loop ::
  "(string \<Rightarrow> int) \<Rightarrow> int \<Rightarrow> KeyValue list \<Rightarrow> KeyValue list list \<Rightarrow> error + KeyValue list list"
where
  "partition_loop h R [] intermediate_files = Inr intermediate_files"
| "partition_loop h R (kv # rest) intermediate_files =
     (if R = 0 then Inl (ZeroDivisionError ''integer modulo by zero'')
      else (case py_append_at intermediate_files (ihash h (key kv) mod R) kv of
              Inl e \<Rightarrow> Inl e
            | Inr intermediate_files' \<Rightarrow> partition_loop h R rest intermediate_files'))"

text \<open>
  The writing loop: for each \<open>reduce_id\<close> the bucket goes to the temporary file and
  the temporary file is renamed.  An exception leaves the loop with the files as
  they are at that point.
\<close>

fun write_intermediate_loop ::
  "runtime \<Rightarrow> int \<Rightarrow> int list \<Rightarrow> KeyValue list list \<Rightarrow> filesystem
     \<Rightarrow> (error + unit) \<times> filesystem" where
  "write_intermediate_loop rt m [] intermediate_files fs = (Inr (), fs)"
| "write_intermediate_loop rt m (reduce_id # rest) intermediate_files fs =
     (case py_index intermediate_files reduce_id of
        Inl e \<Rightarrow> (Inl e, fs)
      | Inr bucket \<Rightarrow>
          (case write_key_values_to_file rt (intermediate_filename m reduce_id @ ''.tmp'')
                  bucket fs of
             Inl e \<Rightarrow> (Inl e, fs)
           | Inr fs1 \<Rightarrow>
               (case os_rename (intermediate_filename m reduce_id @ ''.tmp'')
                       (intermediate_filename m reduce_id) fs1 of
                  Inl e \<Rightarrow> (Inl e, fs1)
                | Inr fs2 \<Rightarrow> write_intermediate_loop rt m rest intermediate_files fs2)))"

text \<open>
  The body of the \<open>try\<close> of \<open>_execute_map_task\<close>, and the method itself, which
  turns any exception into \<open>False\<close>.
\<close>

definition execute_map_task_body ::
  "runtime \<Rightarrow> MapReduceApp \<Rightarrow> Task \<Rightarrow> filesystem \<Rightarrow> (error + unit) \<times> filesystem" where
  "execute_map_task_body rt app t fs =
     (case input_files t of
        [] \<Rightarrow> (Inl (IndexError ''list index out of range''), fs)
      | input_file # other \<Rightarrow>
          (case open_read fs input_file of
             Inl e \<Rightarrow> (Inl e, fs)
           | Inr contents \<Rightarrow>
               (case map_func app input_file contents of
                  Inl e \<Rightarrow> (Inl e, fs)
                | Inr key_values \<Rightarrow>
                    (case partition_loop (py_hash rt) (n_reduce t) key_values
                            (replicate (nat (n_reduce t)) []) of
                       Inl e \<Rightarrow> (Inl e, fs)
                     | Inr intermediate_files \<Rightarrow>
                         write_intermediate_loop rt (map_task_id t) (py_range (n_reduce t))
                           intermediate_files fs))))"

definition execute_map_task ::
  "runtime \<Rightarrow> MapReduceApp \<Rightarrow> Task \<Rightarrow> filesystem \<Rightarrow> bool \<times> filesystem" where
  "execute_map_task rt app t fs =
     (case fst (execute_map_task_body rt app t fs) of
        Inl e \<Rightarrow> (False, snd (execute_map_task_body rt app t fs))
      | Inr u \<Rightarrow> (True, snd (execute_map_task_body rt app t fs)))"

subsection \<open>Reduce tasks\<close>

definition read_all :: "runtime \<Rightarrow> filesystem \<Rightarrow> string list \<Rightarrow> KeyValue list" where
  "read_all rt fs paths =
     concat (map (read_key_values_from_file rt fs) (filter (path_exists fs) paths))"

text \<open>
  The loop over the groups inside \<open>with open(temp_output, "w")\<close>: the text written
  so far, and the exception of \<open>reduce_func\<close> if it raised.
\<close>

fun reduce_loop ::
  "MapReduceApp \<Rightarrow> (string \<times> string list) list \<Rightarrow> string \<Rightarrow> (error + unit) \<times> string" where
  "reduce_loop app [] out = (Inr (), out)"
| "reduce_loop app ((k, vs) # rest) out =
     (case reduce_func app k vs of
        Inl e \<Rightarrow> (Inl e, out)
      | Inr result \<Rightarrow> reduce_loop app rest (out @ k @ '' '' @ result @ newline))"

definition execute_reduce_task_body ::
  "runtime \<Rightarrow> MapReduceApp \<Rightarrow> Task \<Rightarrow> filesystem \<Rightarrow> (error + unit) \<times> filesystem" where
  "execute_reduce_task_body rt app t fs =
     (if read_all rt fs (input_files t) = [] then
        (case open_write (output_file t) [] fs of
           Inl e \<Rightarrow> (Inl e, fs)
         | Inr fs1 \<Rightarrow> (Inr (), fs1))
      else
        (case open_write (output_file t @ ''.tmp'')
                (snd (reduce_loop app
                        (group_by_key (sort_key_values (read_all rt fs (input_files t)))) []))
                fs of
           Inl e \<Rightarrow> (Inl e, fs)
         | Inr fs1 \<Rightarrow>
             (case fst (reduce_loop app
                          (group_by_key (sort_key_values (read_all rt fs (input_files t)))) []) of
                Inl e \<Rightarrow> (Inl e, fs1)
              | Inr u \<Rightarrow>
                  (case os_rename (output_file t @ ''.tmp'') (output_file t) fs1 of
                     Inl e \<Rightarrow> (Inl e, fs1)
                   | Inr fs2 \<Rightarrow> (Inr (), fs2)))))"

definition execute_reduce_task ::
  "runtime \<Rightarrow> MapReduceApp \<Rightarrow> Task \<Rightarrow> filesystem \<Rightarrow> bool \<times> filesystem" where
  "execute_reduce_task rt app t fs =
     (case fst (execute_reduce_task_body rt app t fs) of
        Inl e \<Rightarrow> (False, snd (execute_reduce_task_body rt app t fs))
      | Inr u \<Rightarrow> (True, snd (execute_reduce_task_body rt app t fs)))"

subsection \<open>The main loop's handling of one task\<close>

definition execute_task ::
  "runtime \<Rightarrow> MapReduceApp \<Rightarrow> Task \<Rightarrow> filesystem \<Rightarrow> bool \<times> filesystem" where
  "execute_task rt app t fs =
     (if task_type t = MAP then execute_map_task rt app t fs
      else if task_type t = REDUCE then execute_reduce_task rt app t fs
      else (False, fs))"







section \<open>Notions used to state the properties\<close>

subsection \<open>Well-formed task tables\<close>

text \<open>
  What the constructor establishes and every operation keeps: the keys of a table
  are distinct, every entry is filed under its task's own \<open>task_id\<close>, the map
  table holds MAP tasks and the reduce table REDUCE tasks, and
  \<open>all_tasks_complete\<close> is only set once \<open>map_phase_complete\<close> is.
\<close>

definition table_ok :: "TaskType \<Rightarrow> task_table \<Rightarrow> bool" where
  "table_ok kind tbl =
     (distinct (map fst tbl) \<and>
      list_all (\<lambda>p. task_id (task (snd p)) = fst p \<and> task_type (task (snd p)) = kind) tbl)"

definition coordinator_ok :: "Coordinator \<Rightarrow> bool" where
  "coordinator_ok c =
     (table_ok MAP (map_tasks c) \<and> table_ok REDUCE (reduce_tasks c) \<and>
      (all_tasks_complete c \<longrightarrow> map_phase_complete c))"

definition keys_below :: "int \<Rightarrow> task_table \<Rightarrow> bool" where
  "keys_below n tbl = list_all (\<lambda>p. fst p < n) tbl"

text \<open>
  The status of the task a task id names, and the operations that report that task
  as failed.
\<close>

definition status_of :: "Coordinator \<Rightarrow> int \<Rightarrow> TaskStatus option" where
  "status_of c tid = map_option status (task_info c tid)"

definition fails_task :: "int \<Rightarrow> operation \<Rightarrow> bool" where
  "fails_task tid x =
     (case x of CompleteTask w t success msg now \<Rightarrow> t = tid \<and> \<not> success | _ \<Rightarrow> False)"




subsection \<open>A small job\<close>

text \<open>
  One input file and one reduce partition: map task 0 and reduce task 1.  The
  states are reached from the constructor by the operations shown.
\<close>

definition example_init :: Coordinator where
  "example_init = Coordinator_init [''in.txt''] 1"

definition example_leased :: Coordinator where
  "example_leased = run [RequestTask ''w1'' 0] example_init"

definition example_map_done :: Coordinator where
  "example_map_done = run [RequestTask ''w1'' 0, CompleteTask ''w1'' 0 True [] 1] example_init"


definition example_all_done :: Coordinator where
  "example_all_done =
     run [RequestTask ''w1'' 3, CompleteTask ''w1'' 1 True [] 4] example_map_done"


subsection \<open>The hash the specification names\<close>

text \<open>
  The 64-bit FNV-1a hash of a key's bytes, as the specification words it: start
  from the offset basis, and for each byte take the exclusive or with the byte and
  multiply by the FNV prime, in 64 bits.  \<open>spec_ihash\<close> is its low 31 bits.
\<close>

definition spec_fnv1a_64 :: "string \<Rightarrow> 64 word" where
  "spec_fnv1a_64 s = fold (\<lambda>c h. (h XOR of_char c) * 0x100000001B3) s 0xCBF29CE484222325"

definition spec_ihash :: "string \<Rightarrow> int" where
  "spec_ihash s = uint (spec_fnv1a_64 s) mod 2 ^ 31"

subsection \<open>The interpreter's string hash\<close>

text \<open>
  Modelled from the interpreter: the built-in \<open>hash\<close> of a \<open>str\<close> in CPython
  3.11 on a 64-bit build, for strings of code points below 256.  It is SipHash-1-3
  over the string's bytes, keyed by a secret the process fixes when it starts: all
  zero under \<open>PYTHONHASHSEED=0\<close>, drawn from a linear congruential generator
  under \<open>PYTHONHASHSEED=seed\<close>, and drawn at random when the variable is not
  set, which is how a worker process is started.  The hash of the empty string is
  0, and the value -1 is replaced by -2.
\<close>

type_synonym sipstate = "64 word \<times> 64 word \<times> 64 word \<times> 64 word"

definition rotate64 :: "nat \<Rightarrow> 64 word \<Rightarrow> 64 word" where
  "rotate64 n x = push_bit n x OR drop_bit (64 - n) x"

definition half_round :: "nat \<Rightarrow> nat \<Rightarrow> sipstate \<Rightarrow> sipstate" where
  "half_round s t v =
     (case v of (a, b, c, d) \<Rightarrow>
        (rotate64 32 (a + b), rotate64 s b XOR (a + b), c + d, rotate64 t d XOR (c + d)))"

definition single_round :: "sipstate \<Rightarrow> sipstate" where
  "single_round v =
     (case half_round 13 16 v of (v0, v1, v2, v3) \<Rightarrow>
        (case half_round 17 21 (v2, v1, v0, v3) of (v2', v1', v0', v3') \<Rightarrow>
           (v0', v1', v2', v3')))"

definition absorb :: "64 word \<Rightarrow> sipstate \<Rightarrow> sipstate" where
  "absorb m v =
     (case v of (v0, v1, v2, v3) \<Rightarrow>
        (case single_round (v0, v1, v2, v3 XOR m) of (w0, w1, w2, w3) \<Rightarrow>
           (w0 XOR m, w1, w2, w3)))"

definition finalize :: "sipstate \<Rightarrow> 64 word" where
  "finalize v =
     (case v of (v0, v1, v2, v3) \<Rightarrow>
        (case single_round (single_round (single_round (v0, v1, v2 XOR 0xff, v3))) of
           (x0, x1, x2, x3) \<Rightarrow> (x0 XOR x1) XOR (x2 XOR x3)))"

fun load_le :: "string \<Rightarrow> 64 word" where
  "load_le [] = 0"
| "load_le (c # cs) = of_char c + push_bit 8 (load_le cs)"

fun sip_blocks :: "nat \<Rightarrow> string \<Rightarrow> sipstate \<Rightarrow> sipstate \<times> string" where
  "sip_blocks 0 src v = (v, src)"
| "sip_blocks (Suc n) src v = sip_blocks n (drop 8 src) (absorb (load_le (take 8 src)) v)"

definition siphash13 :: "64 word \<Rightarrow> 64 word \<Rightarrow> string \<Rightarrow> 64 word" where
  "siphash13 k0 k1 src =
     (case sip_blocks (length src div 8) src
             (k0 XOR 0x736f6d6570736575, k1 XOR 0x646f72616e646f6d,
              k0 XOR 0x6c7967656e657261, k1 XOR 0x7465646279746573) of
        (v, rest) \<Rightarrow>
          finalize (absorb (push_bit 56 (of_nat (length src)) OR load_le rest) v))"

fun lcg_urandom :: "nat \<Rightarrow> int \<Rightarrow> int list" where
  "lcg_urandom 0 x = []"
| "lcg_urandom (Suc n) x =
     ((x * 214013 + 2531011) mod 4294967296 div 65536) mod 256
       # lcg_urandom n ((x * 214013 + 2531011) mod 4294967296)"

fun le_int :: "int list \<Rightarrow> int" where
  "le_int [] = 0"
| "le_int (b # bs) = b + 256 * le_int bs"

definition hash_secret :: "nat \<Rightarrow> 64 word \<times> 64 word" where
  "hash_secret seed =
     (if seed = 0 then (0, 0)
      else (of_int (le_int (take 8 (lcg_urandom 24 (int seed)))),
            of_int (le_int (take 8 (drop 8 (lcg_urandom 24 (int seed)))))))"

definition cpython_str_hash :: "nat \<Rightarrow> string \<Rightarrow> int" where
  "cpython_str_hash seed s =
     (if s = [] then 0
      else if sint (siphash13 (fst (hash_secret seed)) (snd (hash_secret seed)) s) = - 1 then - 2
      else sint (siphash13 (fst (hash_secret seed)) (snd (hash_secret seed)) s))"

subsection \<open>Groups\<close>

text \<open>The group of a key in a list of pairs: the values under that key, in the list's order.\<close>

definition group_of :: "KeyValue list \<Rightarrow> string \<Rightarrow> string \<times> string list" where
  "group_of kvs k = (k, map value (filter (\<lambda>kv. key kv = k) kvs))"

definition example_kvs :: "KeyValue list" where
  "example_kvs = [\<lparr>key = ''b'', value = ''1''\<rparr>, \<lparr>key = ''a'', value = ''2''\<rparr>,
                  \<lparr>key = ''b'', value = ''3''\<rparr>]"


subsection \<open>Buckets\<close>

text \<open>
  Bucket \<open>j\<close> of a map task's output, in the specification's words: the pairs
  whose key hashes to \<open>j\<close> modulo the partition count, in the order the map
  function gave them.  \<open>bucket_events\<close> are the two file operations for one
  bucket.
\<close>

definition bucket :: "(string \<Rightarrow> int) \<Rightarrow> int \<Rightarrow> KeyValue list \<Rightarrow> int \<Rightarrow> KeyValue list" where
  "bucket h R key_values j = filter (\<lambda>kv. ihash h (key kv) mod R = j) key_values"


subsection \<open>A small worker run\<close>

text \<open>
  A runtime whose hash is the key's length and whose JSON text is what
  \<open>json.dump\<close> prints for keys and values without special characters; an
  application that emits one pair per character and counts; an application whose
  callbacks raise; the input file, the tasks of a job with two partitions, and the
  files after the map task has run.
\<close>

definition example_dumps :: "KeyValue \<Rightarrow> string" where
  \<open>example_dumps kv = ''{"key": "'' @ key kv @ ''", "value": "'' @ value kv @ ''"}''\<close>

definition example_loads :: "string \<Rightarrow> KeyValue option" where
  "example_loads s =
     (if s = example_dumps \<lparr>key = ''a'', value = ''1''\<rparr> then Some \<lparr>key = ''a'', value = ''1''\<rparr>
      else if s = example_dumps \<lparr>key = ''b'', value = ''1''\<rparr> then Some \<lparr>key = ''b'', value = ''1''\<rparr>
      else None)"

definition example_runtime :: runtime where
  "example_runtime =
     \<lparr>py_hash = (\<lambda>s. int (length s)), json_dumps = example_dumps, json_loads = example_loads,
      str_strip = filter (\<lambda>c. c \<noteq> CHR 0x0A)\<rparr>"

definition example_app :: MapReduceApp where
  "example_app =
     \<lparr>map_func = (\<lambda>filename contents. Inr (map (\<lambda>c. \<lparr>key = [c], value = ''1''\<rparr>) contents)),
      reduce_func = (\<lambda>k values. Inr (str_nat (length values)))\<rparr>"


definition example_fs :: filesystem where
  "example_fs = \<lparr>fs_files = [''in.txt'' \<mapsto> ''aba''], fs_unreadable = {}, fs_readonly = {}, fs_log = []\<rparr>"

definition example_map_task :: Task where
  "example_map_task =
     \<lparr>task_id = 0, task_type = MAP, input_files = [''in.txt''], output_file = [], n_reduce = 2,
      map_task_id = 0, reduce_task_id = - 1\<rparr>"

definition example_reduce_task :: "int \<Rightarrow> Task" where
  "example_reduce_task i =
     \<lparr>task_id = 1 + i, task_type = REDUCE, input_files = [''mr-0-'' @ str_int i],
      output_file = ''mr-out-'' @ str_int i, n_reduce = 2, map_task_id = - 1, reduce_task_id = i\<rparr>"



definition example_fs_with_empty_input :: filesystem where
  "example_fs_with_empty_input =
     \<lparr>fs_files = [''mr-0-0'' \<mapsto> []], fs_unreadable = {}, fs_readonly = {}, fs_log = []\<rparr>"

definition example_fs_with_input :: filesystem where
  "example_fs_with_input =
     \<lparr>fs_files =
        [''mr-0-1'' \<mapsto> kv_lines example_runtime
           [\<lparr>key = ''a'', value = ''1''\<rparr>, \<lparr>key = ''b'', value = ''1''\<rparr>,
            \<lparr>key = ''a'', value = ''1''\<rparr>]],
      fs_unreadable = {}, fs_readonly = {}, fs_log = []\<rparr>"




section \<open>The coordinator's state machine\<close>

lemma map_of_map_entry_same:
  "map_of (AList.map_entry k f tbl) k = map_option f (map_of tbl k)"
  by (induction tbl) auto

lemma map_of_map_entry_other:
  "k' \<noteq> k \<Longrightarrow> map_of (AList.map_entry k f tbl) k' = map_of tbl k'"
  by (induction tbl) auto

lemma keys_map_entry: "map fst (AList.map_entry k f tbl) = map fst tbl"
  by (induction tbl) auto

lemma list_all_map_entry:
  "list_all P tbl \<Longrightarrow> (\<And>v. P (k, v) \<Longrightarrow> P (k, f v)) \<Longrightarrow> list_all P (AList.map_entry k f tbl)"
  by (induction tbl) auto

lemma keys_expire: "map fst (expire now tbl) = map fst tbl"
  by (simp add: expire_def comp_def)

lemma map_of_expire:
  "map_of (expire now tbl) k =
     map_option (\<lambda>ti. if timed_out now ti then reset ti else ti) (map_of tbl k)"
  by (induction tbl) (auto simp: expire_def)

lemma table_ok_map_entry:
  "table_ok kind tbl \<Longrightarrow> (\<And>ti. task (f ti) = task ti) \<Longrightarrow> table_ok kind (AList.map_entry k f tbl)"
  unfolding table_ok_def
  by (auto simp: keys_map_entry intro: list_all_map_entry)

lemma table_ok_expire: "table_ok kind tbl \<Longrightarrow> table_ok kind (expire now tbl)"
proof -
  assume ok: "table_ok kind tbl"
  have "list_all (\<lambda>p. task_id (task (snd p)) = fst p \<and> task_type (task (snd p)) = kind)
          (expire now tbl)"
    using ok by (auto simp: table_ok_def expire_def list_all_iff reset_def)
  with ok show ?thesis
    by (simp add: table_ok_def keys_expire)
qed

lemma check_phase_completion_tables:
  "map_tasks (check_phase_completion c) = map_tasks c"
  "reduce_tasks (check_phase_completion c) = reduce_tasks c"
  by (simp_all add: check_phase_completion_def Let_def)

lemma check_phase_completion_flags:
  "map_phase_complete c \<Longrightarrow> map_phase_complete (check_phase_completion c)"
  "all_tasks_complete c \<Longrightarrow> all_tasks_complete (check_phase_completion c)"
  by (simp_all add: check_phase_completion_def Let_def)

lemma check_phase_completion_order:
  "(all_tasks_complete c \<longrightarrow> map_phase_complete c) \<Longrightarrow>
   all_tasks_complete (check_phase_completion c) \<longrightarrow> map_phase_complete (check_phase_completion c)"
  by (simp add: check_phase_completion_def Let_def)

lemma step_map_phase_complete: "map_phase_complete c \<Longrightarrow> map_phase_complete (step x c)"
  by (cases x)
     (auto simp: handle_task_request_def handle_task_completion_def monitor_tasks_pass_def
        Let_def check_phase_completion_flags split: option.splits)

lemma step_all_tasks_complete: "all_tasks_complete c \<Longrightarrow> all_tasks_complete (step x c)"
  by (cases x)
     (auto simp: handle_task_request_def handle_task_completion_def monitor_tasks_pass_def
        Let_def check_phase_completion_flags split: option.splits)

lemma first_idle_Some:
  assumes "first_idle tbl = Some t" "table_ok kind tbl"
  shows "\<exists>ti. map_of tbl (task_id t) = Some ti \<and> task ti = t \<and> status ti = IDLE
            \<and> task_type t = kind"
proof -
  from assms(1) obtain p where p: "List.find (\<lambda>p. status (snd p) = IDLE) tbl = Some p"
    and t: "t = task (snd p)"
    by (auto simp: first_idle_def)
  from p have mem: "p \<in> set tbl" and idle: "status (snd p) = IDLE"
    by (auto simp: find_Some_iff)
  from mem assms(2) have k: "task_id (task (snd p)) = fst p" "task_type (task (snd p)) = kind"
    by (auto simp: table_ok_def list_all_iff)
  from mem assms(2) have "map_of tbl (fst p) = Some (snd p)"
    by (simp add: table_ok_def)
  with k idle t show ?thesis by simp
qed

lemma coordinator_ok_request:
  assumes "coordinator_ok c"
  shows "coordinator_ok (snd (handle_task_request w now c))"
  using assms
  by (auto simp: handle_task_request_def coordinator_ok_def Let_def assign_def
        intro!: table_ok_map_entry split: option.splits)

lemma coordinator_ok_completion:
  assumes "coordinator_ok c"
  shows "coordinator_ok (snd (handle_task_completion w tid success msg now c))"
proof -
  have a: "\<And>c'. coordinator_ok c' \<Longrightarrow> coordinator_ok (check_phase_completion c')"
    using check_phase_completion_order
    by (simp add: coordinator_ok_def check_phase_completion_tables)
  have m: "\<And>f. (\<And>ti. task (f ti) = task ti) \<Longrightarrow>
             coordinator_ok (c\<lparr>map_tasks := AList.map_entry tid f (map_tasks c)\<rparr>)"
    using assms by (simp add: coordinator_ok_def table_ok_map_entry)
  have r: "\<And>f. (\<And>ti. task (f ti) = task ti) \<Longrightarrow>
             coordinator_ok (c\<lparr>reduce_tasks := AList.map_entry tid f (reduce_tasks c)\<rparr>)"
    using assms by (simp add: coordinator_ok_def table_ok_map_entry)
  show ?thesis
    using assms
    by (auto simp: handle_task_completion_def complete_def reset_def
          intro!: a m r split: option.splits)
qed

lemma coordinator_ok_monitor:
  "coordinator_ok c \<Longrightarrow> coordinator_ok (monitor_tasks_pass now c)"
  by (simp add: monitor_tasks_pass_def coordinator_ok_def table_ok_expire)

lemma coordinator_ok_step: "coordinator_ok c \<Longrightarrow> coordinator_ok (step x c)"
  by (cases x) (simp_all add: coordinator_ok_request coordinator_ok_completion coordinator_ok_monitor)

lemma coordinator_ok_run: "coordinator_ok c \<Longrightarrow> coordinator_ok (run ops c)"
  by (induction ops arbitrary: c) (simp_all add: coordinator_ok_step)

lemma update_fresh: "k \<notin> fst ` set tbl \<Longrightarrow> AList.update k v tbl = tbl @ [(k, v)]"
  by (induction tbl) auto

lemma table_ok_snoc:
  assumes "table_ok kind tbl" "keys_below n tbl" "task_id t = n" "task_type t = kind"
  shows "table_ok kind (AList.update n (TaskInfo_new t) tbl) \<and>
         keys_below (n + 1) (AList.update n (TaskInfo_new t) tbl)"
proof -
  from assms(2) have fresh: "n \<notin> fst ` set tbl"
    by (auto simp: keys_below_def list_all_iff)
  then have upd: "AList.update n (TaskInfo_new t) tbl = tbl @ [(n, TaskInfo_new t)]"
    by (rule update_fresh)
  from assms fresh show ?thesis
    unfolding upd by (auto simp: table_ok_def keys_below_def list_all_iff TaskInfo_new_def)
qed

lemma create_map_tasks_loop_ok:
  assumes "table_ok MAP (map_tasks c)" "keys_below (next_task_id c) (map_tasks c)"
  shows "table_ok MAP (map_tasks (create_map_tasks_loop xs c)) \<and>
         reduce_tasks (create_map_tasks_loop xs c) = reduce_tasks c \<and>
         map_phase_complete (create_map_tasks_loop xs c) = map_phase_complete c \<and>
         all_tasks_complete (create_map_tasks_loop xs c) = all_tasks_complete c"
  using assms
proof (induction xs c rule: create_map_tasks_loop.induct)
  case (1 c)
  then show ?case by simp
next
  case (2 i filename rest c)
  let ?t = "\<lparr>task_id = next_task_id c, task_type = MAP, input_files = [filename],
             output_file = [], n_reduce = c_n_reduce c, map_task_id = int i,
             reduce_task_id = - 1\<rparr>"
  have "table_ok MAP (AList.update (next_task_id c) (TaskInfo_new ?t) (map_tasks c)) \<and>
        keys_below (next_task_id c + 1) (AList.update (next_task_id c) (TaskInfo_new ?t) (map_tasks c))"
    using "2.prems" by (intro table_ok_snoc) simp_all
  then show ?case
    using "2.IH" by simp
qed

lemma create_reduce_tasks_loop_ok:
  assumes "table_ok REDUCE (reduce_tasks c)" "keys_below (next_task_id c) (reduce_tasks c)"
  shows "table_ok REDUCE (reduce_tasks (create_reduce_tasks_loop xs c)) \<and>
         map_tasks (create_reduce_tasks_loop xs c) = map_tasks c \<and>
         map_phase_complete (create_reduce_tasks_loop xs c) = map_phase_complete c \<and>
         all_tasks_complete (create_reduce_tasks_loop xs c) = all_tasks_complete c"
  using assms
proof (induction xs c rule: create_reduce_tasks_loop.induct)
  case (1 c)
  then show ?case by simp
next
  case (2 i rest c)
  let ?t = "\<lparr>task_id = next_task_id c, task_type = REDUCE,
             input_files =
               map (\<lambda>map_id. ''mr-'' @ str_int (int map_id) @ ''-'' @ str_int (int i))
                 [0 ..< length (files c)],
             output_file = ''mr-out-'' @ str_int (int i), n_reduce = c_n_reduce c,
             map_task_id = - 1, reduce_task_id = int i\<rparr>"
  have "table_ok REDUCE (AList.update (next_task_id c) (TaskInfo_new ?t) (reduce_tasks c)) \<and>
        keys_below (next_task_id c + 1)
          (AList.update (next_task_id c) (TaskInfo_new ?t) (reduce_tasks c))"
    using "2.prems" by (intro table_ok_snoc) simp_all
  then show ?case
    using "2.IH" by simp
qed

lemma coordinator_ok_init: "coordinator_ok (Coordinator_init fs n)"
proof -
  let ?c0 = "\<lparr>files = fs, c_n_reduce = n, map_tasks = [], reduce_tasks = [], next_task_id = 0,
        active_workers = {}, map_phase_complete = False, all_tasks_complete = False\<rparr>"
  let ?c1 = "create_map_tasks ?c0"
  have m: "table_ok MAP (map_tasks ?c1) \<and> reduce_tasks ?c1 = [] \<and>
           map_phase_complete ?c1 = False \<and> all_tasks_complete ?c1 = False"
    using create_map_tasks_loop_ok [of ?c0 "enumerate 0 fs"]
    by (simp add: create_map_tasks_def table_ok_def keys_below_def)
  then have r: "table_ok REDUCE (reduce_tasks (create_reduce_tasks ?c1)) \<and>
         map_tasks (create_reduce_tasks ?c1) = map_tasks ?c1 \<and>
         map_phase_complete (create_reduce_tasks ?c1) = map_phase_complete ?c1 \<and>
         all_tasks_complete (create_reduce_tasks ?c1) = all_tasks_complete ?c1"
    unfolding create_reduce_tasks_def
    by (intro create_reduce_tasks_loop_ok) (simp_all add: table_ok_def keys_below_def)
  from m r show ?thesis
    by (simp add: coordinator_ok_def Coordinator_init_def)
qed

lemma coordinator_ok_reachable: "coordinator_ok (run ops (Coordinator_init fs n))"
  by (simp add: coordinator_ok_run coordinator_ok_init)

lemma task_info_eq:
  "task_info c tid =
     (if map_of (map_tasks c) tid = None then map_of (reduce_tasks c) tid
      else map_of (map_tasks c) tid)"
  by (simp add: task_info_def split: option.splits)

lemma map_of_map_entry:
  "map_of (AList.map_entry k f tbl) tid =
     (if k = tid then map_option f (map_of tbl tid) else map_of tbl tid)"
  by (simp add: map_of_map_entry_same map_of_map_entry_other)

lemma status_of_preserved:
  assumes st: "status_of c tid = Some COMPLETED"
    and m: "\<And>ti. map_of (map_tasks c) tid = Some ti \<Longrightarrow> status ti = COMPLETED \<Longrightarrow>
              \<exists>ti'. map_of (map_tasks c') tid = Some ti' \<and> status ti' = COMPLETED"
    and n: "map_of (map_tasks c) tid = None \<Longrightarrow> map_of (map_tasks c') tid = None"
    and r: "\<And>ti. map_of (map_tasks c) tid = None \<Longrightarrow> map_of (reduce_tasks c) tid = Some ti \<Longrightarrow>
              status ti = COMPLETED \<Longrightarrow>
              \<exists>ti'. map_of (reduce_tasks c') tid = Some ti' \<and> status ti' = COMPLETED"
  shows "status_of c' tid = Some COMPLETED"
proof (cases "map_of (map_tasks c) tid")
  case None
  with st obtain ti where ti: "map_of (reduce_tasks c) tid = Some ti" "status ti = COMPLETED"
    by (auto simp: status_of_def task_info_eq)
  from r [OF None ti] obtain ti' where "map_of (reduce_tasks c') tid = Some ti'"
    "status ti' = COMPLETED" by blast
  with n [OF None] show ?thesis
    by (simp add: status_of_def task_info_eq)
next
  case (Some ti)
  with st have "status ti = COMPLETED"
    by (simp add: status_of_def task_info_eq)
  from m [OF Some this] obtain ti' where "map_of (map_tasks c') tid = Some ti'"
    "status ti' = COMPLETED" by blast
  then show ?thesis
    by (simp add: status_of_def task_info_eq)
qed

lemma status_of_map_entry_map:
  assumes "status_of c tid = Some COMPLETED"
    "\<And>ti. map_of (map_tasks c) tid = Some ti \<Longrightarrow> k = tid \<Longrightarrow> status ti = COMPLETED \<Longrightarrow>
       status (f ti) = COMPLETED"
  shows "status_of (c\<lparr>map_tasks := AList.map_entry k f (map_tasks c)\<rparr>) tid = Some COMPLETED"
  using assms(1)
proof (rule status_of_preserved)
  fix ti assume "map_of (map_tasks c) tid = Some ti" "status ti = COMPLETED"
  with assms(2) [of ti]
  show "\<exists>ti'. map_of (map_tasks (c\<lparr>map_tasks := AList.map_entry k f (map_tasks c)\<rparr>)) tid = Some ti'
              \<and> status ti' = COMPLETED"
    by (simp add: map_of_map_entry)
next
  assume "map_of (map_tasks c) tid = None"
  then show "map_of (map_tasks (c\<lparr>map_tasks := AList.map_entry k f (map_tasks c)\<rparr>)) tid = None"
    by (simp add: map_of_map_entry)
next
  fix ti assume "map_of (reduce_tasks c) tid = Some ti" "status ti = COMPLETED"
  then show "\<exists>ti'. map_of (reduce_tasks (c\<lparr>map_tasks := AList.map_entry k f (map_tasks c)\<rparr>)) tid
               = Some ti' \<and> status ti' = COMPLETED"
    by simp
qed

lemma status_of_map_entry_reduce:
  assumes "status_of c tid = Some COMPLETED"
    "\<And>ti. map_of (reduce_tasks c) tid = Some ti \<Longrightarrow> k = tid \<Longrightarrow> status ti = COMPLETED \<Longrightarrow>
       status (f ti) = COMPLETED"
  shows "status_of (c\<lparr>reduce_tasks := AList.map_entry k f (reduce_tasks c)\<rparr>) tid = Some COMPLETED"
  using assms(1)
proof (rule status_of_preserved)
  fix ti assume "map_of (map_tasks c) tid = Some ti" "status ti = COMPLETED"
  then show "\<exists>ti'. map_of (map_tasks (c\<lparr>reduce_tasks := AList.map_entry k f (reduce_tasks c)\<rparr>)) tid
               = Some ti' \<and> status ti' = COMPLETED"
    by simp
next
  assume "map_of (map_tasks c) tid = None"
  then show "map_of (map_tasks (c\<lparr>reduce_tasks := AList.map_entry k f (reduce_tasks c)\<rparr>)) tid = None"
    by simp
next
  fix ti assume "map_of (reduce_tasks c) tid = Some ti" "status ti = COMPLETED"
  with assms(2) [of ti]
  show "\<exists>ti'. map_of (reduce_tasks (c\<lparr>reduce_tasks := AList.map_entry k f (reduce_tasks c)\<rparr>)) tid
               = Some ti' \<and> status ti' = COMPLETED"
    by (simp add: map_of_map_entry)
qed

lemma status_of_cong:
  "map_tasks c' = map_tasks c \<Longrightarrow> reduce_tasks c' = reduce_tasks c \<Longrightarrow>
   status_of c' tid = status_of c tid"
  by (simp add: status_of_def task_info_eq)

lemma completed_request:
  assumes ok: "coordinator_ok c" and st: "status_of c tid = Some COMPLETED"
  shows "status_of (snd (handle_task_request w now c)) tid = Some COMPLETED"
proof -
  let ?c1 = "c\<lparr>active_workers := insert w (active_workers c)\<rparr>"
  have st1: "status_of ?c1 tid = Some COMPLETED"
    using st by (simp add: status_of_cong [of ?c1 c])
  show ?thesis
  proof (cases "get_available_task ?c1")
    case None
    with st1 show ?thesis
      by (simp add: handle_task_request_def Let_def)
  next
    case (Some t)
    show ?thesis
    proof (cases "map_phase_complete c")
      case False
      with Some have "first_idle (map_tasks c) = Some t"
        by (simp add: get_available_task_def)
      with ok obtain ti where ti: "map_of (map_tasks c) (task_id t) = Some ti"
        "status ti = IDLE" "task_type t = MAP"
        using first_idle_Some [of "map_tasks c" t MAP] by (auto simp: coordinator_ok_def)
      have "status_of (?c1\<lparr>map_tasks := AList.map_entry (task_id t) (assign w now) (map_tasks ?c1)\<rparr>) tid
              = Some COMPLETED"
        using st1 ti by (intro status_of_map_entry_map) simp_all
      with Some ti show ?thesis
        by (simp add: handle_task_request_def Let_def)
    next
      case True
      with Some have "first_idle (reduce_tasks c) = Some t"
        by (simp add: get_available_task_def)
      with ok obtain ti where ti: "map_of (reduce_tasks c) (task_id t) = Some ti"
        "status ti = IDLE" "task_type t = REDUCE"
        using first_idle_Some [of "reduce_tasks c" t REDUCE] by (auto simp: coordinator_ok_def)
      have "status_of (?c1\<lparr>reduce_tasks := AList.map_entry (task_id t) (assign w now) (reduce_tasks ?c1)\<rparr>) tid
              = Some COMPLETED"
        using st1 ti by (intro status_of_map_entry_reduce) simp_all
      with Some ti show ?thesis
        by (simp add: handle_task_request_def Let_def)
    qed
  qed
qed

lemma status_of_check_phase_completion:
  "status_of (check_phase_completion c) tid = status_of c tid"
  by (rule status_of_cong) (rule check_phase_completion_tables)+

lemma completed_completion_success:
  assumes st: "status_of c tid = Some COMPLETED"
  shows "status_of (snd (handle_task_completion w t True msg now c)) tid = Some COMPLETED"
proof -
  have m: "status_of (c\<lparr>map_tasks := AList.map_entry t (complete now) (map_tasks c)\<rparr>) tid
             = Some COMPLETED"
    using st by (rule status_of_map_entry_map) (simp add: complete_def)
  have r: "status_of (c\<lparr>reduce_tasks := AList.map_entry t (complete now) (reduce_tasks c)\<rparr>) tid
             = Some COMPLETED"
    using st by (rule status_of_map_entry_reduce) (simp add: complete_def)
  show ?thesis
  proof (cases "map_of (map_tasks c) t")
    case None
    note mt = this
    show ?thesis
    proof (cases "map_of (reduce_tasks c) t")
      case None
      with mt st show ?thesis
        by (simp add: handle_task_completion_def)
    next
      case (Some a)
      with mt r show ?thesis
        by (simp add: handle_task_completion_def status_of_check_phase_completion)
    qed
  next
    case (Some a)
    with m show ?thesis
      by (simp add: handle_task_completion_def status_of_check_phase_completion)
  qed
qed

lemma completed_completion_other:
  assumes st: "status_of c tid = Some COMPLETED" and nf: "t \<noteq> tid"
  shows "status_of (snd (handle_task_completion w t False msg now c)) tid = Some COMPLETED"
proof -
  have m: "status_of (c\<lparr>map_tasks := AList.map_entry t reset (map_tasks c)\<rparr>) tid
             = Some COMPLETED"
    using st by (rule status_of_map_entry_map) (simp add: nf)
  have r: "status_of (c\<lparr>reduce_tasks := AList.map_entry t reset (reduce_tasks c)\<rparr>) tid
             = Some COMPLETED"
    using st by (rule status_of_map_entry_reduce) (simp add: nf)
  show ?thesis
  proof (cases "map_of (map_tasks c) t")
    case None
    note mt = this
    show ?thesis
    proof (cases "map_of (reduce_tasks c) t")
      case None
      with mt st show ?thesis
        by (simp add: handle_task_completion_def)
    next
      case (Some a)
      with mt r show ?thesis
        by (simp add: handle_task_completion_def)
    qed
  next
    case (Some a)
    with m show ?thesis
      by (simp add: handle_task_completion_def)
  qed
qed

lemma completed_completion:
  assumes st: "status_of c tid = Some COMPLETED" and nf: "\<not> (t = tid \<and> \<not> success)"
  shows "status_of (snd (handle_task_completion w t success msg now c)) tid = Some COMPLETED"
proof (cases success)
  case True
  with st show ?thesis by (simp add: completed_completion_success)
next
  case False
  with nf have "t \<noteq> tid" by simp
  with st False show ?thesis by (simp add: completed_completion_other)
qed

lemma expire_completed:
  "map_of tbl tid = Some ti \<Longrightarrow> status ti = COMPLETED \<Longrightarrow> map_of (expire now tbl) tid = Some ti"
  by (simp add: map_of_expire timed_out_def)

lemma expire_None: "map_of tbl tid = None \<Longrightarrow> map_of (expire now tbl) tid = None"
  by (simp add: map_of_expire)

lemma completed_monitor:
  assumes st: "status_of c tid = Some COMPLETED"
  shows "status_of (monitor_tasks_pass now c) tid = Some COMPLETED"
  using st
proof (rule status_of_preserved)
  fix ti assume "map_of (map_tasks c) tid = Some ti" "status ti = COMPLETED"
  then show "\<exists>ti'. map_of (map_tasks (monitor_tasks_pass now c)) tid = Some ti' \<and> status ti' = COMPLETED"
    by (simp add: monitor_tasks_pass_def expire_completed)
next
  assume "map_of (map_tasks c) tid = None"
  then show "map_of (map_tasks (monitor_tasks_pass now c)) tid = None"
    by (simp add: monitor_tasks_pass_def expire_None)
next
  fix ti assume "map_of (reduce_tasks c) tid = Some ti" "status ti = COMPLETED"
  then show "\<exists>ti'. map_of (reduce_tasks (monitor_tasks_pass now c)) tid = Some ti' \<and> status ti' = COMPLETED"
    by (simp add: monitor_tasks_pass_def expire_completed)
qed

lemma completed_step:
  assumes "coordinator_ok c" "status_of c tid = Some COMPLETED" "\<not> fails_task tid x"
  shows "status_of (step x c) tid = Some COMPLETED"
proof (cases x)
  case (RequestTask w now)
  with assms show ?thesis by (simp add: completed_request)
next
  case (CompleteTask w t success msg now)
  with assms(3) have "\<not> (t = tid \<and> \<not> success)" by (simp add: fails_task_def)
  with assms(2) CompleteTask show ?thesis by (simp add: completed_completion)
next
  case (MonitorPass now)
  with assms show ?thesis by (simp add: completed_monitor)
qed

lemma completed_run:
  assumes "coordinator_ok c" "status_of c tid = Some COMPLETED"
    "list_all (\<lambda>x. \<not> fails_task tid x) ops"
  shows "status_of (run ops c) tid = Some COMPLETED"
  using assms
  by (induction ops arbitrary: c) (simp_all add: completed_step coordinator_ok_step)


















text \<open>The definitions a run of the coordinator on concrete input unfolds.\<close>

lemmas coordinator_eval =
  Coordinator_init_def create_map_tasks_def create_reduce_tasks_def TaskInfo_new_def
  handle_task_request_def handle_task_completion_def monitor_tasks_pass_def
  get_available_task_def first_idle_def check_phase_completion_def all_completed_def
  control_task_def assign_def complete_def reset_def expire_def timed_out_def
  task_info_def str_int_def str_nat.simps digit_char_def Let_def

section \<open>Grouping, hashing and the wire format\<close>

lemma group_loop_prefix:
  "group_loop xs groups ck cv = groups @ group_loop xs [] ck cv"
proof (induction xs arbitrary: groups ck cv)
  case Nil
  show ?case by simp
next
  case (Cons kv rest)
  show ?case
  proof (cases "key kv = ck")
    case True
    then show ?thesis using Cons.IH [of groups ck "cv @ [value kv]"] by simp
  next
    case False
    then show ?thesis
      using Cons.IH [of "groups @ [(ck, cv)]" "key kv" "[value kv]"]
        Cons.IH [of "[(ck, cv)]" "key kv" "[value kv]"]
      by simp
  qed
qed

lemma group_loop_run:
  "group_loop xs [] ck cv =
     (ck, cv @ map value (takeWhile (\<lambda>kv. key kv = ck) xs))
       # group_by_key (dropWhile (\<lambda>kv. key kv = ck) xs)"
proof (induction xs arbitrary: cv)
  case Nil
  show ?case by (simp add: group_by_key_def)
next
  case (Cons kv rest)
  show ?case
  proof (cases "key kv = ck")
    case True
    then show ?thesis using Cons.IH [of "cv @ [value kv]"] by simp
  next
    case False
    then show ?thesis
      using group_loop_prefix [of rest "[(ck, cv)]" "key kv" "[value kv]"]
      by (simp add: group_by_key_def)
  qed
qed

lemma group_by_key_Cons:
  "group_by_key (kv # rest) =
     (key kv, value kv # map value (takeWhile (\<lambda>x. key x = key kv) rest))
       # group_by_key (dropWhile (\<lambda>x. key x = key kv) rest)"
  by (simp add: group_by_key_def group_loop_run)

lemma dropWhile_above:
  "sorted (map key rest) \<Longrightarrow> \<forall>x \<in> set rest. k0 \<le> key x \<Longrightarrow>
   \<forall>x \<in> set (dropWhile (\<lambda>x. key x = k0) rest). k0 < key x"
proof (induction rest)
  case Nil
  show ?case by simp
next
  case (Cons a rest)
  show ?case
  proof (cases "key a = k0")
    case True
    with Cons show ?thesis by simp
  next
    case False
    with Cons.prems have "k0 < key a" by auto
    moreover from Cons.prems have "\<forall>x \<in> set rest. key a \<le> key x" by auto
    ultimately show ?thesis using False by auto
  qed
qed

lemma group_by_key_sorted:
  "sorted (map key xs) \<Longrightarrow>
   group_by_key xs = map (group_of xs) (sorted_list_of_set (key ` set xs))"
proof (induction "length xs" arbitrary: xs rule: less_induct)
  case less
  show ?case
  proof (cases xs)
    case Nil
    then show ?thesis by (simp add: group_by_key_def)
  next
    case (Cons kv rest)
    define k0 where "k0 = key kv"
    define tw where "tw = takeWhile (\<lambda>x. key x = k0) rest"
    define dw where "dw = dropWhile (\<lambda>x. key x = k0) rest"
    have parts: "rest = tw @ dw" by (simp add: tw_def dw_def)
    from less.prems Cons have srt: "sorted (map key rest)"
      and ge: "\<forall>x \<in> set rest. k0 \<le> key x"
      by (auto simp: k0_def)
    have tw: "\<forall>x \<in> set tw. key x = k0"
      unfolding tw_def by (auto dest: set_takeWhileD)
    have dw: "\<forall>x \<in> set dw. k0 < key x"
      unfolding dw_def using srt ge by (rule dropWhile_above)
    have sdw: "sorted (map key dw)"
      using srt unfolding parts by (simp add: sorted_append)
    have len: "length dw < length xs"
      using Cons unfolding parts by simp
    have ih: "group_by_key dw = map (group_of dw) (sorted_list_of_set (key ` set dw))"
      using less.hyps [OF len sdw] .
    have tw_id: "filter (\<lambda>x. key x = k0) tw = tw"
      using tw by (simp add: filter_id_conv)
    have dw_none: "filter (\<lambda>x. key x = k0) dw = []"
      using dw by (auto simp: filter_empty_conv)
    have f0: "filter (\<lambda>x. key x = k0) xs = kv # tw"
      unfolding Cons parts using tw_id dw_none by (simp add: k0_def)
    have fk: "group_of xs k = group_of dw k" if "k \<in> set (sorted_list_of_set (key ` set dw))" for k
    proof -
      from that have "k \<in> key ` set dw" by simp
      with dw have ne: "k \<noteq> k0" by auto
      then have "filter (\<lambda>x. key x = k) tw = []"
        using tw by (auto simp: filter_empty_conv)
      with ne show ?thesis
        unfolding Cons parts group_of_def by (simp add: k0_def)
    qed
    have keys: "key ` set xs = insert k0 (key ` set dw)"
      unfolding Cons parts using tw by (auto simp: k0_def)
    have notin: "k0 \<notin> key ` set dw" using dw by auto
    have "sorted_list_of_set (insert k0 (key ` set dw))
            = insort k0 (sorted_list_of_set (key ` set dw))"
      using notin by simp
    also have "\<dots> = k0 # sorted_list_of_set (key ` set dw)"
      using dw by (intro insort_is_Cons) (auto simp: less_imp_le)
    finally have sl: "sorted_list_of_set (key ` set xs) = k0 # sorted_list_of_set (key ` set dw)"
      by (simp add: keys)
    have hd_eq: "(k0, value kv # map value tw) = group_of xs k0"
      by (simp add: group_of_def f0)
    have tl_eq: "group_by_key dw = map (group_of xs) (sorted_list_of_set (key ` set dw))"
      unfolding ih by (rule map_cong) (simp_all add: fk)
    have "group_by_key xs = (k0, value kv # map value tw) # group_by_key dw"
      unfolding Cons by (simp add: group_by_key_Cons k0_def tw_def dw_def)
    then show ?thesis
      unfolding hd_eq tl_eq sl by simp
  qed
qed

lemma group_by_key_sort:
  "group_by_key (sort_key_values kvs) = map (group_of kvs) (sort (remdups (map key kvs)))"
proof -
  have "group_by_key (sort_key key kvs)
          = map (group_of (sort_key key kvs)) (sorted_list_of_set (key ` set (sort_key key kvs)))"
    by (rule group_by_key_sorted) simp
  moreover have "group_of (sort_key key kvs) = group_of kvs"
    by (rule ext) (simp add: group_of_def sort_key_stable)
  moreover have "sorted_list_of_set (key ` set kvs) = sort (remdups (map key kvs))"
    using sorted_list_of_set_sort_remdups [of "map key kvs"] by simp
  ultimately show ?thesis by (simp add: sort_key_values_def)
qed

lemma length_filter_key:
  "length (filter (\<lambda>kv. key kv = k) kvs) = count_list (map key kvs) k"
  by (induction kvs) auto

lemma ihash_bounds: "0 \<le> ihash h k \<and> ihash h k < 2147483647"
  by (simp add: ihash_def)

lemma spec_ihash_all_ones: "spec_ihash ''ihueidz'' = 2147483647"
  by (simp add: spec_ihash_def spec_fnv1a_64_def)

text \<open>
  Whatever the interpreter's hash is, \<open>ihash\<close> cannot agree with the low 31 bits of
  FNV-1a on this key: the latter are all ones, and a residue modulo \<open>2^31 - 1\<close> is
  smaller.
\<close>

lemma ihash_differs_from_spec_ihash: "ihash h ''ihueidz'' \<noteq> spec_ihash ''ihueidz''"
  using ihash_bounds [of h "''ihueidz''"] by (simp add: spec_ihash_all_ones)

text \<open>The hash of the key \<open>a\<close> in two processes, step by step.\<close>

lemma absorb_a_0:
  "absorb 72057594037928033 (8317987319222330741, 7237128888997146477, 7816392313619706465, 8387220255154660723) =
     (7319624374219866557, 18403145855516949703, 4257115380313603538, 3667301059241064010)"
  by (simp add: absorb_def single_round_def half_round_def rotate64_def)

lemma round_1_a_0:
  "single_round (7319624374219866557, 18403145855516949703, 4257115380313603373, 3667301059241064010) =
     (15677018493505201360, 13911173740966296517, 10797438239901133064, 1031114833424877494)"
  by (simp add: single_round_def half_round_def rotate64_def)

lemma round_2_a_0:
  "single_round (15677018493505201360, 13911173740966296517, 10797438239901133064, 1031114833424877494) =
     (7422582315716714243, 4471147500676966138, 4994854219932227917, 12795702899000259750)"
  by (simp add: single_round_def half_round_def rotate64_def)

lemma round_3_a_0:
  "single_round (7422582315716714243, 4471147500676966138, 4994854219932227917, 12795702899000259750) =
     (1853021402747191456, 13833304034108094220, 11134534554737871928, 8988935689808733063)"
  by (simp add: single_round_def half_round_def rotate64_def)

lemma finalize_a_0:
  "finalize (7319624374219866557, 18403145855516949703, 4257115380313603538, 3667301059241064010) = 4644417185603328019"
  by (simp add: finalize_def round_1_a_0 round_2_a_0 round_3_a_0)

lemma siphash13_a_0: "siphash13 0 0 ''a'' = 4644417185603328019"
  by (simp add: siphash13_def absorb_a_0 finalize_a_0)

lemma absorb_a_1:
  "absorb 72057594037928033 (15976802823627949660, 10342175217285988159, 14028444029786214728, 11496809773508982049) =
     (6026846273025975160, 11865186431710434024, 11472351547737359368, 3896568036371363349)"
  by (simp add: absorb_def single_round_def half_round_def rotate64_def)

lemma round_1_a_1:
  "single_round (6026846273025975160, 11865186431710434024, 11472351547737359607, 3896568036371363349) =
     (11686529057181815313, 6127616507553958295, 13941277482592557309, 2162059752676033604)"
  by (simp add: single_round_def half_round_def rotate64_def)

lemma round_2_a_1:
  "single_round (11686529057181815313, 6127616507553958295, 13941277482592557309, 2162059752676033604) =
     (17133516191470309953, 6831203376063236756, 1774785810611702649, 4393299483499397482)"
  by (simp add: single_round_def half_round_def rotate64_def)

lemma round_3_a_1:
  "single_round (17133516191470309953, 6831203376063236756, 1774785810611702649, 4393299483499397482) =
     (6608062529010366868, 1678713259893877017, 16262397027341862676, 8890344455691147754)"
  by (simp add: single_round_def half_round_def rotate64_def)

lemma finalize_a_1:
  "finalize (6026846273025975160, 11865186431710434024, 11472351547737359368, 3896568036371363349) = 15433848885072367219"
  by (simp add: finalize_def round_1_a_1 round_2_a_1 round_3_a_1)

lemma siphash13_a_1: "siphash13 12598376723466036009 16999324916296290386 ''a'' = 15433848885072367219"
  by (simp add: siphash13_def absorb_a_1 finalize_a_1)

lemma hash_secret_0: "hash_secret 0 = (0, 0)"
  by (simp add: hash_secret_def)

lemma hash_secret_1: "hash_secret (Suc 0) = (12598376723466036009, 16999324916296290386)"
  by (simp add: hash_secret_def eval_nat_numeral)

lemma cpython_str_hash_a_0: "cpython_str_hash 0 ''a'' = 4644417185603328019"
  by (simp add: cpython_str_hash_def hash_secret_0 siphash13_a_0)

lemma cpython_str_hash_a_1: "cpython_str_hash (Suc 0) ''a'' = - 3012895188637184397"
  by (simp add: cpython_str_hash_def hash_secret_1 siphash13_a_1)

section \<open>File names, partitioning and the worker's files\<close>

declare str_nat.simps [simp del]













lemma open_write_Inr:
  "open_write path text fs = Inr fs1 \<Longrightarrow>
   fs1 = fs\<lparr>fs_files := (fs_files fs)(path \<mapsto> text), fs_log := fs_log fs @ [Write path text]\<rparr>"
  by (simp add: open_write_def split: if_splits)

lemma os_rename_Inr:
  "os_rename src dst fs = Inr fs2 \<Longrightarrow> fs_files fs src = Some text \<Longrightarrow>
   fs2 = fs\<lparr>fs_files := ((fs_files fs)(src := None))(dst \<mapsto> text),
            fs_log := fs_log fs @ [Rename src dst]\<rparr>"
  by (simp add: os_rename_def split: if_splits)




lemma execute_map_task_True:
  assumes "execute_map_task rt app t fs = (True, fs')"
  shows "execute_map_task_body rt app t fs = (Inr (), fs')"
proof -
  obtain r fs2 where b: "execute_map_task_body rt app t fs = (r, fs2)"
    by (cases "execute_map_task_body rt app t fs")
  with assms show ?thesis
    by (cases r) (simp_all add: execute_map_task_def)
qed

text \<open>
  A successful execution has read the first input file and the map function has
  returned.
\<close>

lemma execute_map_task_True_inputs:
  assumes "execute_map_task rt app t fs = (True, fs')"
  shows "\<exists>input_file other contents key_values.
           input_files t = input_file # other \<and> open_read fs input_file = Inr contents \<and>
           map_func app input_file contents = Inr key_values"
proof -
  from execute_map_task_True [OF assms]
  have b: "fst (execute_map_task_body rt app t fs) = Inr ()" by simp
  show ?thesis
  proof (cases "input_files t")
    case Nil
    with b show ?thesis by (simp add: execute_map_task_body_def)
  next
    case (Cons input_file other)
    note inp = this
    show ?thesis
    proof (cases "open_read fs input_file")
      case (Inl e)
      with b inp show ?thesis by (simp add: execute_map_task_body_def)
    next
      case (Inr contents)
      note cont = this
      show ?thesis
      proof (cases "map_func app input_file contents")
        case (Inl e)
        with b inp cont show ?thesis by (simp add: execute_map_task_body_def)
      next
        case (Inr key_values)
        with inp cont show ?thesis by blast
      qed
    qed
  qed
qed



text \<open>The definitions a run of the worker on concrete input unfolds.\<close>

lemmas worker_eval =
  execute_map_task_def execute_map_task_body_def execute_reduce_task_def
  execute_reduce_task_body_def execute_task_def
  py_append_at_def py_position_def py_index_def py_range_def ihash_def
  write_key_values_to_file_def open_read_def open_write_def os_rename_def kv_lines_def
  newline_def
  intermediate_filename_def str_int_def str_nat.simps digit_char_def
  read_all_def read_key_values_from_file_def path_exists_def
  sort_key_values_def group_by_key_def upt_conv_Cons eval_nat_numeral

lemmas example_worker_defs =
  example_dumps_def example_loads_def example_runtime_def example_app_def example_fs_def
  example_map_task_def


lemma example_reduce_empty:
  "read_all example_runtime example_fs_with_empty_input (input_files (example_reduce_task 0)) = []"
  by (simp add: worker_eval example_worker_defs example_reduce_task_def
        example_fs_with_empty_input_def)

lemma reduce_task_nonempty_uses_rename:
  assumes "read_all rt fs (input_files t) \<noteq> []"
    and "execute_reduce_task rt app t fs = (True, fs')"
  shows "\<exists>written. fs_log fs' = fs_log fs @ [Write (output_file t @ ''.tmp'') written,
                                        Rename (output_file t @ ''.tmp'') (output_file t)]"
proof -
  define written where "written = snd (reduce_loop app
                        (group_by_key (sort_key_values (read_all rt fs (input_files t)))) [])"
  define r where "r = fst (reduce_loop app
                        (group_by_key (sort_key_values (read_all rt fs (input_files t)))) [])"
  have body: "execute_reduce_task_body rt app t fs = (Inr (), fs')"
  proof -
    obtain x fs2 where b: "execute_reduce_task_body rt app t fs = (x, fs2)"
      by (cases "execute_reduce_task_body rt app t fs")
    with assms(2) show ?thesis
      by (cases x) (simp_all add: execute_reduce_task_def)
  qed
  from body assms(1) obtain fs1 where
    w: "open_write (output_file t @ ''.tmp'') written fs = Inr fs1"
    and rn: "os_rename (output_file t @ ''.tmp'') (output_file t) fs1 = Inr fs'"
    unfolding execute_reduce_task_body_def written_def [symmetric] r_def [symmetric]
    by (auto split: sum.splits)
  from open_write_Inr [OF w] have fs1: "fs1 = fs\<lparr>fs_files := (fs_files fs)(output_file t @ ''.tmp'' \<mapsto> written),
      fs_log := fs_log fs @ [Write (output_file t @ ''.tmp'') written]\<rparr>" .
  then have "fs_files fs1 (output_file t @ ''.tmp'') = Some written" by simp
  from os_rename_Inr [OF rn this] fs1 have
    "fs_log fs' = fs_log fs @ [Write (output_file t @ ''.tmp'') written,
                               Rename (output_file t @ ''.tmp'') (output_file t)]"
    by simp
  then show ?thesis by blast
qed


















section \<open>Properties of the coordinator\<close>

text \<open>
  C1.  The claim has a successful \<open>CompleteTask\<close> take effect only when the task is
  \<open>IN_PROGRESS\<close> under the caller's lease, and leave the \<open>TaskInfo\<close> unchanged
  otherwise.  The handler makes no such check.  What holds: for every known task
  id, whatever the task's status and whoever holds the lease, a report with
  \<open>success = True\<close> is acknowledged, and afterwards the task's \<open>TaskInfo\<close> is
  the old one with \<open>status\<close> set to \<open>COMPLETED\<close> and \<open>completion_time\<close> set
  to the clock reading.
\<close>

theorem complete_task_success_unconditional:
  assumes "task_info c tid = Some ti"
  shows "fst (handle_task_completion w tid True msg now c) = [''acknowledged'' \<mapsto> JBool True] \<and>
         task_info (snd (handle_task_completion w tid True msg now c)) tid =
           Some (ti\<lparr>status := COMPLETED, completion_time := Some now\<rparr>)"
proof (cases "map_of (map_tasks c) tid")
  case None
  with assms have r: "map_of (reduce_tasks c) tid = Some ti"
    by (simp add: task_info_eq)
  with None show ?thesis
    by (simp add: handle_task_completion_def task_info_eq check_phase_completion_tables
          map_of_map_entry_same complete_def)
next
  case (Some a)
  with assms have "a = ti" by (simp add: task_info_eq)
  with Some show ?thesis
    by (simp add: handle_task_completion_def task_info_eq check_phase_completion_tables
          map_of_map_entry_same complete_def)
qed

text \<open>
  C1, witness: map task 0 of the small job while it is leased to worker \<open>w1\<close>,
  reported by \<open>w1\<close>.
\<close>

theorem complete_task_success_unconditional_witness:
  "task_info example_leased 0 =
     Some \<lparr>task = \<lparr>task_id = 0, task_type = MAP, input_files = [''in.txt''], output_file = [],
                    n_reduce = 1, map_task_id = 0, reduce_task_id = - 1\<rparr>,
           status = IN_PROGRESS, worker_id = Some ''w1'', start_time = Some 0,
           completion_time = None\<rparr> \<and>
   fst (handle_task_completion ''w1'' 0 True [] 5 example_leased) = [''acknowledged'' \<mapsto> JBool True] \<and>
   task_info (snd (handle_task_completion ''w1'' 0 True [] 5 example_leased)) 0 =
     Some \<lparr>task = \<lparr>task_id = 0, task_type = MAP, input_files = [''in.txt''], output_file = [],
                    n_reduce = 1, map_task_id = 0, reduce_task_id = - 1\<rparr>,
           status = COMPLETED, worker_id = Some ''w1'', start_time = Some 0,
           completion_time = Some 5\<rparr>"
proof -
  have h: "task_info example_leased 0 =
     Some \<lparr>task = \<lparr>task_id = 0, task_type = MAP, input_files = [''in.txt''], output_file = [],
                    n_reduce = 1, map_task_id = 0, reduce_task_id = - 1\<rparr>,
           status = IN_PROGRESS, worker_id = Some ''w1'', start_time = Some 0,
           completion_time = None\<rparr>"
    by (simp add: coordinator_eval example_leased_def example_init_def)
  show ?thesis
    using h complete_task_success_unconditional [OF h, of "''w1''" "[]" 5] by simp
qed

text \<open>
  C1, counterexample: map task 0 is leased to \<open>w1\<close>; worker \<open>w2\<close>, which does not
  hold the lease, reports success, and the task's \<open>TaskInfo\<close> changes: its status
  becomes \<open>COMPLETED\<close>.
\<close>

theorem complete_task_other_worker_counterexample:
  "map_option worker_id (task_info example_leased 0) = Some (Some ''w1'') \<and>
   status_of example_leased 0 = Some IN_PROGRESS \<and>
   fst (handle_task_completion ''w2'' 0 True [] 5 example_leased) = [''acknowledged'' \<mapsto> JBool True] \<and>
   task_info (snd (handle_task_completion ''w2'' 0 True [] 5 example_leased)) 0
     \<noteq> task_info example_leased 0 \<and>
   status_of (snd (handle_task_completion ''w2'' 0 True [] 5 example_leased)) 0 = Some COMPLETED"
  by (simp add: coordinator_eval example_leased_def example_init_def status_of_def)

text \<open>
  C2.  The claim lets no operation move a \<open>COMPLETED\<close> task back, a failure report
  included.  A report with \<open>success = False\<close> resets the task it names whatever
  its status.  What holds: in every state the coordinator reaches from its
  construction, a task that is \<open>COMPLETED\<close> stays \<open>COMPLETED\<close> through every
  sequence of task requests, success reports, monitor passes and failure reports
  that name other tasks.
\<close>

theorem completed_stays_completed:
  assumes "status_of (run ops0 (Coordinator_init fs n)) tid = Some COMPLETED"
    and "list_all (\<lambda>x. \<not> fails_task tid x) ops"
  shows "status_of (run ops (run ops0 (Coordinator_init fs n))) tid = Some COMPLETED"
  by (rule completed_run [OF coordinator_ok_reachable assms])

text \<open>
  C2, witness: map task 0 of the small job after its completion, through a second
  success report, a monitor pass, a request and a failure report for task 1.
\<close>

theorem completed_stays_completed_witness:
  "status_of (run [RequestTask ''w1'' 0, CompleteTask ''w1'' 0 True [] 1]
               (Coordinator_init [''in.txt''] 1)) 0 = Some COMPLETED \<and>
   list_all (\<lambda>x. \<not> fails_task 0 x)
     [CompleteTask ''w2'' 0 True [] 2, MonitorPass 20, RequestTask ''w2'' 21,
      CompleteTask ''w2'' 1 False ''failed'' 22] \<and>
   status_of
     (run [CompleteTask ''w2'' 0 True [] 2, MonitorPass 20, RequestTask ''w2'' 21,
           CompleteTask ''w2'' 1 False ''failed'' 22]
        (run [RequestTask ''w1'' 0, CompleteTask ''w1'' 0 True [] 1]
           (Coordinator_init [''in.txt''] 1))) 0 = Some COMPLETED"
proof -
  have h1: "status_of (run [RequestTask ''w1'' 0, CompleteTask ''w1'' 0 True [] 1]
               (Coordinator_init [''in.txt''] 1)) 0 = Some COMPLETED"
    by (simp add: coordinator_eval status_of_def)
  have h2: "list_all (\<lambda>x. \<not> fails_task 0 x)
     [CompleteTask ''w2'' 0 True [] 2, MonitorPass 20, RequestTask ''w2'' 21,
      CompleteTask ''w2'' 1 False ''failed'' 22]"
    by (simp add: fails_task_def)
  show ?thesis
    using h1 h2 completed_stays_completed [OF h1 h2] by simp
qed

text \<open>
  C2, counterexample: map task 0 is \<open>COMPLETED\<close>; a late failure report for it
  sets it back to \<open>IDLE\<close>.
\<close>

theorem completed_regresses_counterexample:
  "status_of example_map_done 0 = Some COMPLETED \<and>
   status_of (step (CompleteTask ''w1'' 0 False ''late'' 2) example_map_done) 0 = Some IDLE"
  by (simp add: coordinator_eval example_map_done_def example_init_def status_of_def)




text \<open>
  C5.  Through every sequence of operations, from any state, \<open>map_phase_complete\<close>
  stays true once it is true, and so do \<open>all_tasks_complete\<close> and \<open>done()\<close>.
\<close>

theorem flags_monotone:
  "(map_phase_complete c \<longrightarrow> map_phase_complete (run ops c)) \<and>
   (all_tasks_complete c \<longrightarrow> all_tasks_complete (run ops c)) \<and>
   (done_coordinator c \<longrightarrow> done_coordinator (run ops c))"
proof (induction ops arbitrary: c)
  case Nil
  show ?case by simp
next
  case (Cons x xs)
  show ?case
    using Cons.IH [of "step x c"] step_map_phase_complete [of c x]
      step_all_tasks_complete [of c x]
    by (simp add: done_coordinator_def)
qed

text \<open>
  C5, witness: the small job with every task completed, followed by a failure
  report, a monitor pass and a request.
\<close>

theorem flags_monotone_witness:
  "map_phase_complete example_all_done \<and> all_tasks_complete example_all_done \<and>
   done_coordinator example_all_done \<and>
   map_phase_complete
     (run [CompleteTask ''w1'' 0 False ''late'' 5, MonitorPass 30, RequestTask ''w2'' 31]
        example_all_done) \<and>
   all_tasks_complete
     (run [CompleteTask ''w1'' 0 False ''late'' 5, MonitorPass 30, RequestTask ''w2'' 31]
        example_all_done) \<and>
   done_coordinator
     (run [CompleteTask ''w1'' 0 False ''late'' 5, MonitorPass 30, RequestTask ''w2'' 31]
        example_all_done)"
proof -
  have h: "map_phase_complete example_all_done \<and> all_tasks_complete example_all_done \<and>
    done_coordinator example_all_done"
    by (simp add: coordinator_eval example_all_done_def example_map_done_def example_init_def done_coordinator_def)
  show ?thesis
    using h flags_monotone [of example_all_done
        "[CompleteTask ''w1'' 0 False ''late'' 5, MonitorPass 30, RequestTask ''w2'' 31]"]
    by blast
qed


section \<open>Properties of the core functions\<close>

text \<open>
  C3.  For every key, \<open>ihash\<close> is to be one fixed function of the key, the same
  nonnegative integer in every process of a job (the low 31 bits of the key's
  FNV-1a hash).  The function reduces the built-in hash of the process, and in two
  worker processes, here with hash seeds 0 and 1, the key \<open>a\<close> gets two
  different values, which fall into different partitions of a job with two
  partitions; neither is the FNV-1a value.
\<close>

theorem ihash_differs_between_processes:
  "ihash (cpython_str_hash 0) ''a'' = 964929977 \<and>
   ihash (cpython_str_hash 1) ''a'' = 606873094 \<and>
   ihash (cpython_str_hash 0) ''a'' mod 2 = 1 \<and>
   ihash (cpython_str_hash 1) ''a'' mod 2 = 0 \<and>
   spec_ihash ''a'' = 100789388"
proof -
  have "spec_ihash ''a'' = 100789388"
    by (simp add: spec_ihash_def spec_fnv1a_64_def)
  then show ?thesis
    by (simp add: ihash_def cpython_str_hash_a_0 cpython_str_hash_a_1)
qed


text \<open>
  C9.  For every list of pairs, grouping the list sorted by key gives, for the
  distinct keys of the list in ascending order, one pair each: the key and the
  values the list holds under that key, in the order the list holds them (the sort
  is stable).  The keys of the groups are strictly ascending, and each group has as
  many values as the key has occurrences in the list.
\<close>

theorem group_by_key_of_sorted:
  "group_by_key (sort_key_values kvs) =
     map (\<lambda>k. (k, map value (filter (\<lambda>kv. key kv = k) kvs))) (sort (remdups (map key kvs))) \<and>
   sorted_wrt (<) (map fst (group_by_key (sort_key_values kvs))) \<and>
   (\<forall>g \<in> set (group_by_key (sort_key_values kvs)).
      length (snd g) = count_list (map key kvs) (fst g) \<and> 0 < length (snd g))"
proof -
  let ?ks = "sort (remdups (map key kvs))"
  have eq: "group_by_key (sort_key_values kvs) = map (group_of kvs) ?ks"
    by (rule group_by_key_sort)
  have fst_eq: "map fst (map (group_of kvs) ?ks) = ?ks"
    by (simp add: group_of_def comp_def)
  have strict: "sorted_wrt (<) ?ks"
    by (simp add: strict_sorted_iff)
  have len: "length (snd g) = count_list (map key kvs) (fst g) \<and> 0 < length (snd g)"
    if "g \<in> set (map (group_of kvs) ?ks)" for g
  proof -
    from that obtain k where k: "k \<in> set (map key kvs)" and g: "g = group_of kvs k"
      by auto
    from k have "count_list (map key kvs) k \<noteq> 0"
      unfolding count_list_0_iff by simp
    then have "0 < count_list (map key kvs) k" by simp
    with g show ?thesis
      by (simp add: group_of_def length_filter_key)
  qed
  have "group_by_key (sort_key_values kvs) =
     map (\<lambda>k. (k, map value (filter (\<lambda>kv. key kv = k) kvs))) ?ks"
    unfolding eq by (simp add: group_of_def)
  moreover have "sorted_wrt (<) (map fst (group_by_key (sort_key_values kvs)))"
    unfolding eq fst_eq by (rule strict)
  moreover have "\<forall>g \<in> set (group_by_key (sort_key_values kvs)).
      length (snd g) = count_list (map key kvs) (fst g) \<and> 0 < length (snd g)"
    unfolding eq using len by blast
  ultimately show ?thesis by blast
qed

text \<open>C9, witness: three pairs, two of them under the key \<open>b\<close>.\<close>

theorem group_by_key_of_sorted_witness:
  "group_by_key (sort_key_values example_kvs) = [(''a'', [''2'']), (''b'', [''1'', ''3''])] \<and>
   sorted_wrt (<) (map fst (group_by_key (sort_key_values example_kvs))) \<and>
   length [''2''] = count_list (map key example_kvs) ''a'' \<and>
   length [''1'', ''3''] = count_list (map key example_kvs) ''b''"
proof -
  have eq: "group_by_key (sort_key_values example_kvs) = [(''a'', [''2'']), (''b'', [''1'', ''3''])]"
    by (simp add: example_kvs_def sort_key_values_def group_by_key_def)
  have rest: "sorted_wrt (<) (map fst (group_by_key (sort_key_values example_kvs))) \<and>
   (\<forall>g \<in> set (group_by_key (sort_key_values example_kvs)).
      length (snd g) = count_list (map key example_kvs) (fst g) \<and> 0 < length (snd g))"
    using group_by_key_of_sorted [of example_kvs] by blast
  from rest have "\<forall>g \<in> set [(''a'', [''2'']), (''b'', [''1'', ''3''])].
      length (snd g) = count_list (map key example_kvs) (fst g)"
    unfolding eq by blast
  with eq rest show ?thesis by simp
qed

text \<open>
  C10.  For every task, decoding the dictionary the task encodes to gives the task
  back: \<open>Task.from_dict(t.to_dict()) = t\<close>.
\<close>

theorem task_dict_round_trip: "from_dict (to_dict t) = Inr t"
  by (cases "task_type t")
     (simp_all add: from_dict_def to_dict_def dict_item_def dict_get_def bind_err_def
        TaskType_of_value_def)

text \<open>C10, witness: the EXIT signal of a job with three partitions.\<close>

theorem task_dict_round_trip_witness:
  "from_dict (to_dict (control_task EXIT 3)) = Inr (control_task EXIT 3)"
  using task_dict_round_trip [of "control_task EXIT 3"] by simp


section \<open>Properties of the worker\<close>



text \<open>
  C7.  The claim has the empty case create a temporary file and rename it, as the
  non-empty case does.  The method has a branch of its own for the empty case,
  which opens the output path for writing and closes it.  What holds: for every
  reduce task whose combined list of pairs is empty, the execution makes one file
  operation, the write of the empty text to the output path itself, and returns
  success (or, where the path cannot be opened for writing, changes nothing and
  returns failure); no temporary file is created and nothing is renamed.
\<close>

theorem reduce_task_empty_input_direct_write:
  assumes "read_all rt fs (input_files t) = []"
  shows "execute_reduce_task rt app t fs =
           (if output_file t \<in> fs_readonly fs then (False, fs)
            else (True, fs\<lparr>fs_files := (fs_files fs)(output_file t \<mapsto> []),
                           fs_log := fs_log fs @ [Write (output_file t) []]\<rparr>))"
  using assms
  by (simp add: execute_reduce_task_def execute_reduce_task_body_def open_write_def)

text \<open>C7, witness: the reduce task of partition 0, whose only input file is empty.\<close>

theorem reduce_task_empty_input_direct_write_witness:
  "read_all example_runtime example_fs_with_empty_input (input_files (example_reduce_task 0)) = [] \<and>
   execute_reduce_task example_runtime example_app (example_reduce_task 0)
       example_fs_with_empty_input =
     (True, \<lparr>fs_files = [''mr-0-0'' \<mapsto> [], ''mr-out-0'' \<mapsto> []], fs_unreadable = {},
             fs_readonly = {}, fs_log = [Write ''mr-out-0'' []]\<rparr>)"
  using example_reduce_empty
    reduce_task_empty_input_direct_write [OF example_reduce_empty, of example_app]
  by (simp add: example_fs_with_empty_input_def example_reduce_task_def str_int_def
        str_nat.simps digit_char_def)

text \<open>
  C7, counterexample: for the same task the file operations are the single write to
  \<open>mr-out-0\<close>, not a write to \<open>mr-out-0.tmp\<close> and a rename; the reduce task of
  partition 1, whose input is not empty, does write \<open>mr-out-1.tmp\<close> and rename.
\<close>

theorem reduce_task_empty_input_counterexample:
  "read_all example_runtime example_fs_with_empty_input (input_files (example_reduce_task 0)) = [] \<and>
   fs_log (snd (execute_reduce_task example_runtime example_app (example_reduce_task 0)
                  example_fs_with_empty_input)) = [Write ''mr-out-0'' []] \<and>
   fs_log (snd (execute_reduce_task example_runtime example_app (example_reduce_task 0)
                  example_fs_with_empty_input))
     \<noteq> [Write ''mr-out-0.tmp'' [], Rename ''mr-out-0.tmp'' ''mr-out-0''] \<and>
   fs_log (snd (execute_reduce_task example_runtime example_app (example_reduce_task 1)
                  example_fs_with_input)) =
     [Write ''mr-out-1.tmp'' (''a 2'' @ newline @ ''b 1'' @ newline),
      Rename ''mr-out-1.tmp'' ''mr-out-1'']"
  by (simp add: worker_eval example_worker_defs example_reduce_task_def
        example_fs_with_empty_input_def example_fs_with_input_def)




end
